theory Spec2Isabelle
  imports Main "HOL-Library.Char_ord" "HOL-Library.List_Lexorder" "HOL-Library.AList"
begin


section \<open>Python string and path primitives used by \<open>polyvers/cmdlets.py\<close>\<close>

text \<open>
  Paths and file names are Python \<open>str\<close> values, modelled as \<open>string\<close>.
  The functions below follow the standard library on a POSIX platform
  (\<open>os.sep = '/'\<close>, \<open>os.extsep = '.'\<close>).
\<close>

definition endswith :: "string \<Rightarrow> string \<Rightarrow> bool" where
  \<comment> \<open>\<open>s.endswith(suffix)\<close>\<close>
  "endswith s suffix = (take (length suffix) (rev s) = rev suffix)"

definition endswith_any :: "string \<Rightarrow> string list \<Rightarrow> bool" where
  \<comment> \<open>\<open>s.endswith(tuple_of_suffixes)\<close>\<close>
  "endswith_any s suffixes = list_ex (endswith s) suffixes"

definition rstrip :: "string \<Rightarrow> string \<Rightarrow> string" where
  \<comment> \<open>\<open>s.rstrip(chars)\<close>: drops every trailing character that occurs in \<open>chars\<close>;
      \<open>chars\<close> is a set of characters, not a suffix.\<close>
  "rstrip s chars = rev (dropWhile (\<lambda>c. c \<in> set chars) (rev s))"

definition lower_char :: "char \<Rightarrow> char" where
  "lower_char c =
     (case map_of (zip ''ABCDEFGHIJKLMNOPQRSTUVWXYZ'' ''abcdefghijklmnopqrstuvwxyz'') c of
        Some d \<Rightarrow> d
      | None \<Rightarrow> c)"

definition lower :: "string \<Rightarrow> string" where
  \<comment> \<open>\<open>str.lower\<close> on ASCII text\<close>
  "lower s = map lower_char s"

definition osp_split :: "string \<Rightarrow> string \<times> string" where
  \<comment> \<open>\<open>posixpath.split\<close>: the tail is what follows the last slash; trailing slashes
      are removed from the head unless the head consists of slashes only.\<close>
  "osp_split p =
     (let tail = rev (takeWhile (\<lambda>c. c \<noteq> CHR ''/'') (rev p));
          head = take (length p - length tail) p
      in (if head \<noteq> [] \<and> (\<exists>c \<in> set head. c \<noteq> CHR ''/'')
          then rstrip head ''/'' else head, tail))"

definition osp_join :: "string \<Rightarrow> string \<Rightarrow> string" where
  \<comment> \<open>\<open>posixpath.join(a, b)\<close>\<close>
  "osp_join a b =
     (if take 1 b = ''/'' then b
      else if a = [] \<or> endswith a ''/'' then a @ b
      else a @ ''/'' @ b)"

definition splitext :: "string \<Rightarrow> string \<times> string" where
  \<comment> \<open>\<open>posixpath.splitext\<close>: the extension starts at the last dot of the last path
      component, unless that component has only dots before it.\<close>
  "splitext p =
     (let fname = rev (takeWhile (\<lambda>c. c \<noteq> CHR ''/'') (rev p))
      in if CHR ''.'' \<in> set fname then
           (let ext_tail = rev (takeWhile (\<lambda>c. c \<noteq> CHR ''.'') (rev fname));
                n = length p - (length ext_tail + 1);
                stem = take (length fname - (length ext_tail + 1)) fname
            in if (\<exists>c \<in> set stem. c \<noteq> CHR ''.'') then (take n p, drop n p) else (p, []))
         else (p, []))"

definition ensure_file_ext :: "string \<Rightarrow> string \<Rightarrow> string" where
  \<comment> \<open>Modelled from the spec: \<open>fileutils.ensure_file_ext\<close> is not among the sources.
      From the registry's description: "compute basepath + extension (only appending
      if not already present)".\<close>
  "ensure_file_ext fname ext = (if endswith fname ext then fname else fname @ ext)"


section \<open>The registry of visited configuration files\<close>

datatype error =
    AttributeError string
  | AssertionError string
  | ValueError string
  | CmdException string
  | ConfigLoadError string
  | OSError string
  | TraitError string

text \<open>
  A visit record is the pair \<open>(folder, fname)\<close> appended by \<open>visit_file\<close>;
  \<open>None\<close> stands for Python's \<open>None\<close>.
\<close>

type_synonym visit = "string \<times> string option"
type_synonym cfg_group = "string \<times> string list"

text \<open>
  \<open>CfgFilesRegistry.__init__\<close> sets \<open>supported_cfg_extensions\<close> and
  \<open>_visited_tuples\<close> only.  The attribute \<open>collected_paths\<close> is created by
  \<open>collect_fpaths\<close>; \<open>None\<close> models the attribute not existing yet.  The
  \<open>IndexedSet\<close> is an insertion-ordered set: a list without repetitions.
\<close>

record registry =
  supported_cfg_extensions :: "string list"
  visited_tuples :: "visit list"
  collected_paths :: "string list option"

definition new_registry :: "string list \<Rightarrow> registry" where
  "new_registry exts =
     \<lparr>supported_cfg_extensions = exts, visited_tuples = [], collected_paths = None\<rparr>"

definition default_registry :: registry where
  "default_registry = new_registry [''.json'', ''.py'']"

definition iset_add :: "string list \<Rightarrow> string \<Rightarrow> string list" where
  \<comment> \<open>\<open>IndexedSet.add\<close>\<close>
  "iset_add s x = (if x \<in> set s then s else s @ [x])"

definition truthy_name :: "string option \<Rightarrow> bool" where
  \<comment> \<open>\<open>if f:\<close> on a name that is \<open>None\<close> or a \<open>str\<close>\<close>
  "truthy_name f = (case f of None \<Rightarrow> False | Some s \<Rightarrow> s \<noteq> [])"

text \<open>
  The loop of \<open>_consolidate\<close>.  Its state is the list \<open>consolidated\<close> and the
  variable \<open>prev\<close>, which is \<open>None\<close> before the first record and a pair
  \<open>(folder, names)\<close> afterwards (a 2-tuple is always truthy).
\<close>

fun consolidate_step ::
  "cfg_group list \<times> cfg_group option \<Rightarrow> visit \<Rightarrow> cfg_group list \<times> cfg_group option" where
  "consolidate_step (consolidated, prev) (b, f) =
     (let (consolidated', prev') =
        (case prev of
           None \<Rightarrow> (consolidated, (b, []))
         | Some p \<Rightarrow> if fst p \<noteq> b then (consolidated @ [p], (b, [])) else (consolidated, p))
      in (consolidated',
          Some (if truthy_name f then (fst prev', snd prev' @ [the f]) else prev')))"

definition consolidate :: "visit list \<Rightarrow> cfg_group list" where
  "consolidate visited =
     (case foldl consolidate_step ([], None) visited of
        (consolidated, None) \<Rightarrow> consolidated
      | (consolidated, Some p) \<Rightarrow> consolidated @ [p])"

definition config_tuples :: "registry \<Rightarrow> cfg_group list" where
  "config_tuples r = consolidate (visited_tuples r)"

definition visit_file :: "registry \<Rightarrow> string \<Rightarrow> bool \<Rightarrow> error + registry" where
  "visit_file r fpath loaded =
     (let (base, fname) = osp_split fpath in
      if loaded then
        (case collected_paths r of
           None \<Rightarrow> Inl (AttributeError ''collected_paths'')
         | Some cp \<Rightarrow>
             Inr (r\<lparr>collected_paths := Some (iset_add cp fpath),
                    visited_tuples := visited_tuples r @ [(base, Some fname)]\<rparr>))
      else Inr (r\<lparr>visited_tuples := visited_tuples r @ [(base, None)]\<rparr>))"


subsection \<open>Collecting the files of a path list\<close>

text \<open>
  What \<open>collect_fpaths\<close> asks of its surroundings: \<open>os.path.isfile\<close>,
  \<open>os.path.isdir\<close>, \<open>os.listdir\<close>, and \<open>fileutils.convpath\<close>, which
  normalises a path to its absolute form and is not among the sources (it is a
  parameter here).
\<close>

record filesystem =
  convpath :: "string \<Rightarrow> string"
  isfile :: "string \<Rightarrow> bool"
  isdir :: "string \<Rightarrow> bool"
  listdir :: "string \<Rightarrow> string list"

definition in_collected :: "registry \<Rightarrow> string \<Rightarrow> bool" where
  \<comment> \<open>\<open>f in collected_paths\<close>; inside \<open>collect_fpaths\<close> the set always exists\<close>
  "in_collected r f = (case collected_paths r of None \<Rightarrow> False | Some cp \<Rightarrow> f \<in> set cp)"

text \<open>The first loop of \<open>try_file_extensions\<close>: \<open>for ext in cfg_exts\<close>.\<close>

fun try_exts ::
  "filesystem \<Rightarrow> string \<Rightarrow> string list \<Rightarrow> registry \<times> bool \<Rightarrow> error + registry \<times> bool" where
  "try_exts fs basepath [] (r, loaded_any) = Inr (r, loaded_any)"
| "try_exts fs basepath (ext # exts) (r, loaded_any) =
     (let f = ensure_file_ext basepath ext in
      if in_collected r f then try_exts fs basepath exts (r, loaded_any)
      else
        (let loaded = isfile fs f in
         case visit_file r f loaded of
           Inl e \<Rightarrow> Inl e
         | Inr r' \<Rightarrow> try_exts fs basepath exts (r', loaded_any \<or> loaded)))"

text \<open>The innermost loop: \<open>for f in sorted(os.listdir(conf_d))\<close>.\<close>

fun visit_conf_d ::
  "string list \<Rightarrow> string \<Rightarrow> string list \<Rightarrow> registry \<times> bool \<Rightarrow> error + registry \<times> bool" where
  "visit_conf_d cfg_exts conf_d [] (r, loaded_any) = Inr (r, loaded_any)"
| "visit_conf_d cfg_exts conf_d (f # fnames) (r, loaded_any) =
     (let loaded = endswith_any f cfg_exts in
      case visit_file r (osp_join conf_d f) loaded of
        Inl e \<Rightarrow> Inl e
      | Inr r' \<Rightarrow> visit_conf_d cfg_exts conf_d fnames (r', loaded_any \<or> loaded))"

text \<open>The second loop: \<open>for ext in ('', ) + cfg_exts\<close>.\<close>

fun try_conf_d ::
  "filesystem \<Rightarrow> string list \<Rightarrow> string \<Rightarrow> string list \<Rightarrow> registry \<times> bool
     \<Rightarrow> error + registry \<times> bool" where
  "try_conf_d fs cfg_exts basepath [] (r, loaded_any) = Inr (r, loaded_any)"
| "try_conf_d fs cfg_exts basepath (ext # exts) (r, loaded_any) =
     (if endswith basepath ext then
        (let conf_d = ensure_file_ext (rstrip basepath ext) ''.d'' in
         if isdir fs conf_d then
           (case visit_conf_d cfg_exts conf_d (sort (listdir fs conf_d)) (r, loaded_any) of
              Inl e \<Rightarrow> Inl e
            | Inr st \<Rightarrow> try_conf_d fs cfg_exts basepath exts st)
         else try_conf_d fs cfg_exts basepath exts (r, loaded_any))
      else try_conf_d fs cfg_exts basepath exts (r, loaded_any))"

definition try_file_extensions ::
  "filesystem \<Rightarrow> string list \<Rightarrow> registry \<Rightarrow> string \<Rightarrow> error + registry \<times> bool" where
  "try_file_extensions fs cfg_exts r basepath =
     (case try_exts fs basepath cfg_exts (r, False) of
        Inl e \<Rightarrow> Inl e
      | Inr st \<Rightarrow> try_conf_d fs cfg_exts basepath ([] # cfg_exts) st)"

definition derive_config_fpaths ::
  "filesystem \<Rightarrow> string list \<Rightarrow> registry \<Rightarrow> string \<Rightarrow> error + registry" where
  "derive_config_fpaths fs cfg_exts r path =
     (let p = convpath fs path in
      case try_file_extensions fs cfg_exts r p of
        Inl e \<Rightarrow> Inl e
      | Inr (r1, loaded_any) \<Rightarrow>
          if \<not> loaded_any then
            (case try_file_extensions fs cfg_exts r1 (fst (splitext p)) of
               Inl e \<Rightarrow> Inl e
             | Inr (r2, _) \<Rightarrow> Inr r2)
          else Inr r1)"

text \<open>The loop \<open>for cf in path_list\<close>.\<close>

fun collect_loop ::
  "filesystem \<Rightarrow> string list \<Rightarrow> registry \<Rightarrow> string list \<Rightarrow> error + registry" where
  "collect_loop fs cfg_exts r [] = Inr r"
| "collect_loop fs cfg_exts r (cf # path_list) =
     (case derive_config_fpaths fs cfg_exts r cf of
        Inl e \<Rightarrow> Inl e
      | Inr r' \<Rightarrow> collect_loop fs cfg_exts r' path_list)"

definition collect_fpaths ::
  "filesystem \<Rightarrow> registry \<Rightarrow> string list \<Rightarrow> error + registry \<times> string list" where
  "collect_fpaths fs r path_list =
     (let r0 = r\<lparr>collected_paths := Some []\<rparr>;
          cfg_exts = supported_cfg_extensions r0
      in case collect_loop fs cfg_exts r0 path_list of
           Inl e \<Rightarrow> Inl e
         | Inr r' \<Rightarrow> Inr (r', case collected_paths r' of None \<Rightarrow> [] | Some cp \<Rightarrow> cp))"

section \<open>Commands\<close>

subsection \<open>Dictionaries and configurations\<close>

text \<open>
  A Python \<open>dict\<close> is an association list with each key once, in insertion order.
  \<open>d[k] = v\<close> is \<open>AList.update k v d\<close>: it replaces the value in place or appends a
  new entry.  \<open>d.update(other)\<close> stores the entries of \<open>other\<close> one after the other.
\<close>

definition dict_update :: "('k \<times> 'v) list \<Rightarrow> ('k \<times> 'v) list \<Rightarrow> ('k \<times> 'v) list" where
  "dict_update d other = foldl (\<lambda>acc (k, v). AList.update k v acc) d other"

datatype cfg_value = VBool bool | VInt int | VStr string | VList "string list"

text \<open>
  A configuration maps dotted names \<open>Class.trait\<close> to values (the override tree of the
  data model, flattened).
\<close>

type_synonym config = "(string \<times> cfg_value) list"

definition merge_config :: "config \<Rightarrow> config \<Rightarrow> config" where
  \<comment> \<open>Modelled from the spec: \<open>Config.merge\<close> belongs to the vendored traitlets, which is
      not among the sources.  "Lower-priority file values are applied first, then
      progressively higher-priority file values overwrite them."\<close>
  "merge_config cfg other = dict_update cfg other"

definition collisions :: "config \<Rightarrow> config \<Rightarrow> string list" where
  \<comment> \<open>Modelled from the spec: \<open>Config.collisions\<close> is not among the sources.  "For every
      dotted key present in both, if the values differ".\<close>
  "collisions earlier cfg =
     filter (\<lambda>k. case map_of cfg k of None \<Rightarrow> False | Some v \<Rightarrow> map_of earlier k \<noteq> Some v)
       (map fst earlier)"

datatype log_entry = LogDebug string | LogInfo string | LogWarning string | LogError string

definition quoted :: "string \<Rightarrow> string" where
  \<comment> \<open>a text between single quotes, as the messages of the source show paths\<close>
  "quoted s = CHR 0x27 # s @ [CHR 0x27]"

subsection \<open>Command classes and instances\<close>

text \<open>
  A command class carries its name, its registered sub-commands and the class-level
  values of the traits an instance starts from.  An instance refers to its parent and
  to its sub-command by their addresses in the store of instances.
\<close>

datatype cmd_class =
  CmdClass (cls_name: string)
           (cls_subcommands: "(string \<times> cmd_class) list")
           (cls_flags: "(string \<times> config \<times> string) list")
           (cls_aliases: "(string \<times> string) list")
           (cls_config_paths: "string list")

record cmd =
  cmd_cls :: cmd_class
  parent :: "nat option"
  subapp :: "nat option"
  flags :: "(string \<times> config \<times> string) list"
  aliases :: "(string \<times> string) list"
  config_paths :: "string list"
  config_basename :: string
  raise_config_file_errors :: bool
  cli_config :: config
  config :: config
  cfgfiles_registry :: "registry option"

text \<open>
  \<open>_inherit_parent_cmd\<close>, the observer of the trait \<open>parent\<close>.  Its second argument is
  the parent object \<open>self.parent\<close> refers to, if any.
\<close>

definition inherit_parent_cmd :: "cmd \<Rightarrow> cmd option \<Rightarrow> cmd" where
  "inherit_parent_cmd self parent_obj =
     (case parent_obj of
        None \<Rightarrow> self
      | Some p \<Rightarrow>
          (let self1 =
                 (if flags p \<noteq> [] then
                    self\<lparr>flags := (if flags self \<noteq> [] then dict_update (flags p) (flags self)
                                    else flags p)\<rparr>
                  else self)
           in if aliases p \<noteq> [] then
                self1\<lparr>aliases := (if aliases self1 \<noteq> [] then dict_update (aliases p) (aliases self1)
                                     else aliases p)\<rparr>
              else self1))"

subsection \<open>Loading one configuration file\<close>

text \<open>
  The two loaders of traitlets are parameters: each either returns the configuration it
  parsed, raises \<open>ConfigFileNotFound\<close>, or raises another exception.  The option parser
  of \<open>parse_command_line\<close> is a parameter too.
\<close>

datatype load_result = Loaded config | FileNotFound | LoadFailure string

record environment =
  fsys :: filesystem
  load_py :: "string \<Rightarrow> load_result"
  load_json :: "string \<Rightarrow> load_result"
  parse_options :: "string list \<Rightarrow> config"

definition read_config_from_json_or_py ::
  "environment \<Rightarrow> cmd \<Rightarrow> string \<Rightarrow> error + config option \<times> log_entry list" where
  "read_config_from_json_or_py env self cfpath =
     (let loaders = [(''.py'', load_py env), (''.json'', load_json env)];
          ext = snd (splitext cfpath)
      in case map_of loaders (lower ext) of
           None \<Rightarrow> Inl (AssertionError cfpath)
         | Some loader \<Rightarrow>
             (case loader cfpath of
                Loaded cfg \<Rightarrow> Inr (Some cfg, [LogDebug (''Loaded config-file: '' @ cfpath)])
              | FileNotFound \<Rightarrow> Inr (None, [])
              | LoadFailure ex \<Rightarrow>
                  if raise_config_file_errors self then Inl (ConfigLoadError ex)
                  else Inr (None,
                         [LogError (''Failed loading config-file '' @ quoted cfpath @ '' due to: '' @ ex)])))"

subsection \<open>Reading and merging the configuration files\<close>

definition collect_static_fpaths :: "environment \<Rightarrow> cmd \<Rightarrow> error + cmd \<times> string list" where
  "collect_static_fpaths env self =
     (case collect_fpaths (fsys env) default_registry (config_paths self) of
        Inl e \<Rightarrow> Inl e
      | Inr (reg, fpaths) \<Rightarrow> Inr (self\<lparr>cfgfiles_registry := Some reg\<rparr>, fpaths))"

definition collision_warnings :: "(string \<times> config) list \<Rightarrow> string \<Rightarrow> config \<Rightarrow> log_entry list" where
  \<comment> \<open>the loop \<open>for filename, earlier_config in loaded.items()\<close>\<close>
  "collision_warnings loaded cfpath cfg =
     map (\<lambda>(filename, earlier).
            LogWarning (''Collisions detected in '' @ filename @ '' and '' @ cfpath @
                        '' config files. '' @ cfpath @ '' has higher priority''))
       (filter (\<lambda>(filename, earlier). collisions earlier cfg \<noteq> []) loaded)"

text \<open>
  The loop \<open>for cfpath in config_paths[::-1]\<close> of \<open>read_config_files\<close>; its state is
  \<open>new_config\<close>, the dictionary \<open>loaded\<close> and the messages logged.  \<open>if config:\<close> holds
  for a configuration that is neither \<open>None\<close> nor empty.
\<close>

fun read_loop ::
  "environment \<Rightarrow> cmd \<Rightarrow> string list \<Rightarrow> config \<times> (string \<times> config) list \<times> log_entry list
     \<Rightarrow> error + config \<times> (string \<times> config) list \<times> log_entry list" where
  "read_loop env self [] st = Inr st"
| "read_loop env self (cfpath # rest) (new_config, loaded, logs) =
     (case read_config_from_json_or_py env self cfpath of
        Inl e \<Rightarrow> Inl e
      | Inr (None, lg) \<Rightarrow> read_loop env self rest (new_config, loaded, logs @ lg)
      | Inr (Some cfg, lg) \<Rightarrow>
          if cfg \<noteq> [] then
            read_loop env self rest
              (merge_config new_config cfg, AList.update cfpath cfg loaded,
               logs @ lg @ collision_warnings loaded cfpath cfg)
          else read_loop env self rest (new_config, loaded, logs @ lg))"

definition read_config_files ::
  "environment \<Rightarrow> cmd \<Rightarrow> error + cmd \<times> config \<times> log_entry list" where
  "read_config_files env self =
     (case collect_static_fpaths env self of
        Inl e \<Rightarrow> Inl e
      | Inr (self1, fpaths) \<Rightarrow>
          (case read_loop env self1 (rev fpaths) ([], [], []) of
             Inl e \<Rightarrow> Inl e
           | Inr (new_config, loaded, logs) \<Rightarrow> Inr (self1, new_config, logs)))"

fun str_split :: "char \<Rightarrow> string \<Rightarrow> string list" where
  \<comment> \<open>\<open>s.split(sep)\<close> for a separator of one character\<close>
  "str_split sep [] = [[]]"
| "str_split sep (c # cs) =
     (if c = sep then [] # str_split sep cs
      else (case str_split sep cs of
              w # ws \<Rightarrow> (c # w) # ws
            | [] \<Rightarrow> [[c]]))"

definition pathlist_validate :: "string list \<Rightarrow> string list" where
  \<comment> \<open>\<open>PathList.validate\<close>: every element is split on \<open>os.pathsep\<close>\<close>
  "pathlist_validate paths = concat (map (str_split CHR '':'') paths)"

definition load_config_traits :: "cmd \<Rightarrow> config \<Rightarrow> error + cmd" where
  \<comment> \<open>Modelled from the spec: the trait machinery belongs to the vendored traitlets.
      "Apply the final tree to this node's own settable properties"; the properties are
      named \<open><Class>.<property>\<close>.  Of the traits of a command, the source tags
      \<open>config_paths\<close> as configurable; a tree sets it under the section of the node's
      own class or, failing that, of \<open>Cmd\<close>, and the value passes
      \<open>PathList.validate\<close>.  A value that is no list is a \<open>TraitError\<close>.
      \<open>raise_config_file_errors\<close> is not declared by the source, which only reads it;
      it is given to the constructor, as the tests do.\<close>
  "load_config_traits self cfg =
     (case (case map_of cfg (cls_name (cmd_cls self) @ ''.config_paths'') of
              Some v \<Rightarrow> Some v
            | None \<Rightarrow> map_of cfg ''Cmd.config_paths'') of
        None \<Rightarrow> Inr self
      | Some (VList paths) \<Rightarrow> Inr (self\<lparr>config_paths := pathlist_validate paths\<rparr>)
      | Some (VBool b) \<Rightarrow> Inl (TraitError ''config_paths'')
      | Some (VInt n) \<Rightarrow> Inl (TraitError ''config_paths'')
      | Some (VStr t) \<Rightarrow> Inl (TraitError ''config_paths''))"

definition update_config :: "cmd \<Rightarrow> config \<Rightarrow> error + cmd" where
  \<comment> \<open>Modelled from the spec: \<open>update_config\<close> belongs to the vendored traitlets.  The
      traits are set from the tree, then the tree is merged into \<open>config\<close>.\<close>
  "update_config self cfg =
     (case load_config_traits self cfg of
        Inl e \<Rightarrow> Inl e
      | Inr self1 \<Rightarrow> Inr (self1\<lparr>config := merge_config (config self1) cfg\<rparr>))"

definition is_dispatching :: "cmd \<Rightarrow> bool" where
  "is_dispatching self = (subapp self \<noteq> None)"

subsection \<open>The store of instances, \<open>initialize\<close> and \<open>chain_cmds\<close>\<close>

record world =
  store :: "nat \<Rightarrow> cmd"
  next_id :: nat
  wlog :: "log_entry list"

definition new_cmd :: "cmd_class \<Rightarrow> nat option \<Rightarrow> cmd" where
  \<comment> \<open>an instance as its class defines it, before the observers of \<open>parent\<close> run;
      \<open>cls_name\<close> stands for the command's \<open>name\<close>\<close>
  "new_cmd cl par =
     \<lparr>cmd_cls = cl, parent = par, subapp = None, flags = cls_flags cl, aliases = cls_aliases cl,
      config_paths = cls_config_paths cl, config_basename = CHR ''.'' # cls_name cl,
      raise_config_file_errors = False, cli_config = [], config = [],
      cfgfiles_registry = None\<rparr>"

definition instantiate :: "world \<Rightarrow> cmd_class \<Rightarrow> nat option \<Rightarrow> world \<times> nat" where
  \<comment> \<open>\<open>app_cl(parent=app)\<close>: the new instance is stored at a fresh address; assigning
      \<open>parent\<close> runs \<open>_inherit_parent_cmd\<close>.  The default of \<open>config_basename\<close> is a
      dot and the name of \<open>root_app()\<close>, which a child finds through its parent.  The
      configuration a child takes over from its parent at construction is left out.\<close>
  "instantiate w cl par =
     (let self = inherit_parent_cmd (new_cmd cl par) (map_option (store w) par);
          self' = (case par of
                     None \<Rightarrow> self
                   | Some p \<Rightarrow> self\<lparr>config_basename := config_basename (store w p)\<rparr>)
      in (w\<lparr>store := (store w)(next_id w := self'), next_id := Suc (next_id w)\<rparr>, next_id w))"

definition set_subapp :: "world \<Rightarrow> nat \<Rightarrow> nat \<Rightarrow> world" where
  \<comment> \<open>\<open>app.subapp = child\<close>\<close>
  "set_subapp w i j = w\<lparr>store := (store w)(i := (store w i)\<lparr>subapp := Some j\<rparr>)\<rparr>"

definition load_cli_config ::
  "environment \<Rightarrow> world \<Rightarrow> nat \<Rightarrow> string list \<Rightarrow> error + world" where
  \<comment> \<open>the options of the command line become \<open>cli_config\<close> and are applied to the
      node: its traits are set from them before any file is looked for\<close>
  "load_cli_config env w i argv =
     (let cli = parse_options env argv;
          self = (store w i)\<lparr>cli_config := cli\<rparr>
      in case update_config self cli of
           Inl e \<Rightarrow> Inl e
         | Inr self1 \<Rightarrow> Inr (w\<lparr>store := (store w)(i := self1)\<rparr>))"

text \<open>
  \<open>initialize\<close> is the source's (its decorator \<open>catch_config_error\<close> turns a
  \<open>TraitError\<close> into an exit; here the call ends with that error).
  \<open>parse_command_line\<close> is modelled from the spec (it
  belongs to the vendored traitlets \<open>Application\<close>, which is not among the sources): "if
  the first remaining token matches a known sub-command", a child is attached and "the
  flow recurses into the child"; otherwise the tokens are this node's own options.
\<close>

function initialize :: "environment \<Rightarrow> world \<Rightarrow> nat \<Rightarrow> string list \<Rightarrow> error + world"
  and parse_command_line :: "environment \<Rightarrow> world \<Rightarrow> nat \<Rightarrow> string list \<Rightarrow> error + world" where
  "initialize env w i argv =
     (case parse_command_line env w i argv of
        Inl e \<Rightarrow> Inl e
      | Inr w1 \<Rightarrow>
          if is_dispatching (store w1 i) then Inr w1
          else
            (case read_config_files env (store w1 i) of
               Inl e \<Rightarrow> Inl e
             | Inr (self1, static_config, logs) \<Rightarrow>
                 (case update_config self1 (merge_config static_config (cli_config self1)) of
                    Inl e \<Rightarrow> Inl e
                  | Inr self2 \<Rightarrow>
                      Inr (w1\<lparr>store := (store w1)(i := self2), wlog := wlog w1 @ logs\<rparr>))))"
| "parse_command_line env w i [] = load_cli_config env w i []"
| "parse_command_line env w i (subc # subargv) =
     (case map_of (cls_subcommands (cmd_cls (store w i))) subc of
        Some sub_cl \<Rightarrow>
          (case instantiate w sub_cl (Some i) of
             (w1, j) \<Rightarrow> initialize env (set_subapp w1 i j) j subargv)
      | None \<Rightarrow> load_cli_config env w i (subc # subargv))"
  by pat_completeness auto
termination
  by (relation "measure (\<lambda>x. case x of
          Inl (env, w, i, argv) \<Rightarrow> 2 * length argv + 1
        | Inr (env, w, i, argv) \<Rightarrow> 2 * length argv)") auto

text \<open>
  \<open>chain_cmds\<close>: the loop \<open>for app_cl in app_classes\<close> with its variables \<open>root\<close> and
  \<open>app\<close>.  In \<open>app.subapp = app = app_cl(parent=app)\<close> the instance is created first,
  then stored in the \<open>subapp\<close> of the previous \<open>app\<close>, then bound to \<open>app\<close>.  Every
  element of the list is a command class, so the \<open>isinstance\<close> test passes.  The
  keyword arguments of the root and the class attribute \<open>_instance\<close> set at the end
  are left out.
\<close>

fun chain_loop ::
  "environment \<Rightarrow> world \<Rightarrow> cmd_class list \<Rightarrow> string list \<Rightarrow> nat option \<Rightarrow> nat option
     \<Rightarrow> error + world \<times> nat option" where
  "chain_loop env w [] argv root app = Inr (w, root)"
| "chain_loop env w (app_cl # app_classes) argv root app =
     (let (w1, root1, app1) =
            (case (root, app) of
               (Some rt, Some prev) \<Rightarrow>
                 (case instantiate w app_cl (Some prev) of
                    (w', new) \<Rightarrow> (set_subapp w' prev new, Some rt, new))
             | _ \<Rightarrow>
                 (case instantiate w app_cl None of (w', new) \<Rightarrow> (w', Some new, new)))
      in case initialize env w1 app1 argv of
           Inl e \<Rightarrow> Inl e
         | Inr w2 \<Rightarrow> chain_loop env w2 app_classes argv root1 (Some app1))"

definition chain_cmds ::
  "environment \<Rightarrow> world \<Rightarrow> cmd_class list \<Rightarrow> string list \<Rightarrow> error + world \<times> nat" where
  "chain_cmds env w app_classes argv =
     (if app_classes = [] then Inl (ValueError ''No cmds to chained passed in!'')
      else
        (case chain_loop env w app_classes argv None None of
           Inl e \<Rightarrow> Inl e
         | Inr (w', None) \<Rightarrow> Inl (ValueError ''No cmds to chained passed in!'')
         | Inr (w', Some root) \<Rightarrow> Inr (w', root)))"


subsection \<open>Writing the default configuration file\<close>

text \<open>
  \<open>write_default_config\<close> changes the file system, so here it is a state: every path
  holds a regular file with its text, a directory, or nothing.
\<close>

datatype node = File string | Dir

type_synonym disk = "string \<Rightarrow> node option"

definition disk_isfile :: "disk \<Rightarrow> string \<Rightarrow> bool" where
  "disk_isfile d p = (case d p of Some (File text) \<Rightarrow> True | _ \<Rightarrow> False)"

definition disk_isdir :: "disk \<Rightarrow> string \<Rightarrow> bool" where
  "disk_isdir d p = (d p = Some Dir)"

definition shutil_move :: "disk \<Rightarrow> string \<Rightarrow> string \<Rightarrow> error + disk" where
  \<comment> \<open>\<open>shutil.move\<close> of a regular file: into \<open>dst\<close> when that is a directory (an error if
      the name is taken there), and a rename that replaces \<open>dst\<close> otherwise\<close>
  "shutil_move d src dst =
     (let real_dst = (if disk_isdir d dst then osp_join dst (snd (osp_split src)) else dst)
      in if disk_isdir d dst \<and> d real_dst \<noteq> None
         then Inl (OSError (''Destination path '' @ quoted real_dst @ '' already exists''))
         else Inr (d(src := None, real_dst := d src)))"

definition ensure_dir_exists :: "disk \<Rightarrow> string \<Rightarrow> error + disk" where
  \<comment> \<open>Modelled from the spec: \<open>fileutils.ensure_dir_exists\<close> is not among the sources, and
      the spec names no more than the writing that follows it.  By its name, as
      \<open>os.makedirs\<close> behaves: a directory that exists is left as it is, a missing one is
      created, a regular file in its place is an error, and so is the empty path, which
      names nothing that could be created.\<close>
  "ensure_dir_exists d path =
     (if path = [] then Inl (OSError path)
      else
        (case d path of
           Some Dir \<Rightarrow> Inr d
         | Some (File text) \<Rightarrow> Inl (OSError path)
         | None \<Rightarrow> Inr (d(path \<mapsto> Dir))))"

definition write_text :: "disk \<Rightarrow> string \<Rightarrow> string \<Rightarrow> error + disk" where
  \<comment> \<open>\<open>io.open(path, mode='wt')\<close> and \<open>fp.write(text)\<close>\<close>
  "write_text d path text =
     (if disk_isdir d path then Inl (OSError path) else Inr (d(path \<mapsto> File text)))"

text \<open>
  What the method takes from outside: \<open>fileutils.convpath\<close>, the time stamp
  \<open>datetime.now().strftime('%Y%m%d-%H%M%S%Z')\<close>, and the text
  \<open>self.generate_config_file()\<close> returns.
\<close>

record writing =
  w_convpath :: "string \<Rightarrow> string"
  w_now :: string
  w_config_text :: string

definition already_exists_msg :: "string \<Rightarrow> string" where
  "already_exists_msg config_file =
     ''Config-file '' @ quoted config_file @ '' already exists!'' @ [CHR 0x0A] @
     ''  Specify '' @ [CHR 0x60] @ ''--force'' @ [CHR 0x60] @ '' to overwrite.''"

definition target_config_file :: "writing \<Rightarrow> disk \<Rightarrow> cmd \<Rightarrow> string option \<Rightarrow> error + string" where
  \<comment> \<open>the head of \<open>write_default_config\<close>, up to \<open>ensure_file_ext(config_file, '.py')\<close>\<close>
  "target_config_file wr d self config_file =
     (case (if truthy_name config_file then
              (case config_file of
                 Some cf \<Rightarrow>
                   (let cf' = w_convpath wr cf
                    in Inr (if disk_isdir d cf' then osp_join cf' (config_basename self) else cf'))
               | None \<Rightarrow> Inl (AssertionError ''No config-file given to write to!''))
            else
              (case config_paths self of
                 p # ps \<Rightarrow> Inr p
               | [] \<Rightarrow> Inl (AssertionError ''No config-file given to write to!''))) of
        Inl e \<Rightarrow> Inl e
      | Inr cf \<Rightarrow> Inr (ensure_file_ext cf ''.py''))"

definition backup_name :: "writing \<Rightarrow> string \<Rightarrow> string" where
  \<comment> \<open>\<open>'%s-%s.py' % (osp.splitext(config_file)[0], now)\<close>\<close>
  "backup_name wr config_file = fst (splitext config_file) @ ''-'' @ w_now wr @ ''.py''"

definition write_default_config ::
  "writing \<Rightarrow> disk \<Rightarrow> cmd \<Rightarrow> string option \<Rightarrow> bool \<Rightarrow> error option \<times> disk \<times> log_entry list" where
  \<comment> \<open>the result holds the exception raised, if any, the file system the call leaves,
      and what it logged\<close>
  "write_default_config wr d self config_file force =
     (case target_config_file wr d self config_file of
        Inl e \<Rightarrow> (Some e, d, [])
      | Inr cf \<Rightarrow>
          (let is_overwrite = disk_isfile d cf in
           if is_overwrite \<and> \<not> force then (Some (CmdException (already_exists_msg cf)), d, [])
           else
             (case (if is_overwrite then shutil_move d cf (backup_name wr cf) else Inr d) of
                Inl e \<Rightarrow> (Some e, d, [])
              | Inr d1 \<Rightarrow>
                  (let op_msg = (if is_overwrite
                                 then '', old file renamed --> '' @ quoted (backup_name wr cf)
                                 else []);
                       logs = [LogInfo (''Writting config-file '' @ quoted cf @ op_msg @ ''...'')]
                   in case ensure_dir_exists d1 (fst (osp_split cf)) of
                        Inl e \<Rightarrow> (Some e, d1, logs)
                      | Inr d2 \<Rightarrow>
                          (case write_text d2 cf (w_config_text wr) of
                             Inl e \<Rightarrow> (Some e, d2, logs)
                           | Inr d3 \<Rightarrow> (None, d3, logs))))))"


section \<open>Auxiliary notions for the statements about the registry\<close>

definition finish_groups :: "cfg_group list \<times> cfg_group option \<Rightarrow> cfg_group list" where
  \<comment> \<open>what \<open>_consolidate\<close> returns from the state its loop ended in\<close>
  "finish_groups st =
     (case st of (consolidated, None) \<Rightarrow> consolidated
               | (consolidated, Some p) \<Rightarrow> consolidated @ [p])"

definition loaded_names :: "visit list \<Rightarrow> string list" where
  \<comment> \<open>the file names of the records that carry one, in visiting order\<close>
  "loaded_names visited = map (\<lambda>v. the (snd v)) (filter (\<lambda>v. truthy_name (snd v)) visited)"

definition visit_record :: "string \<Rightarrow> bool \<Rightarrow> visit" where
  \<comment> \<open>the pair \<open>visit_file\<close> appends for a path\<close>
  "visit_record fpath loaded =
     (fst (osp_split fpath), if loaded then Some (snd (osp_split fpath)) else None)"

definition is_loaded :: "visit \<Rightarrow> bool" where
  "is_loaded v = (snd v \<noteq> None)"

text \<open>
  The effect of the first loop of \<open>try_file_extensions\<close> on the collected set, the
  records it appends, and whether it sets \<open>loaded_any\<close>, each as a function of the
  collected set \<open>cp\<close> the loop starts from.
\<close>

fun exts_collected :: "filesystem \<Rightarrow> string \<Rightarrow> string list \<Rightarrow> string list \<Rightarrow> string list" where
  "exts_collected fs basepath [] cp = cp"
| "exts_collected fs basepath (ext # exts) cp =
     exts_collected fs basepath exts
       (if ensure_file_ext basepath ext \<notin> set cp \<and> isfile fs (ensure_file_ext basepath ext)
        then cp @ [ensure_file_ext basepath ext] else cp)"

fun exts_records :: "filesystem \<Rightarrow> string \<Rightarrow> string list \<Rightarrow> string list \<Rightarrow> visit list" where
  "exts_records fs basepath [] cp = []"
| "exts_records fs basepath (ext # exts) cp =
     (if ensure_file_ext basepath ext \<in> set cp then exts_records fs basepath exts cp
      else visit_record (ensure_file_ext basepath ext) (isfile fs (ensure_file_ext basepath ext)) #
           exts_records fs basepath exts
             (if isfile fs (ensure_file_ext basepath ext)
              then cp @ [ensure_file_ext basepath ext] else cp))"

definition exts_found :: "filesystem \<Rightarrow> string \<Rightarrow> string list \<Rightarrow> string list \<Rightarrow> bool" where
  \<comment> \<open>some extension gives a file that exists and is not collected yet\<close>
  "exts_found fs basepath exts cp =
     list_ex (\<lambda>ext. ensure_file_ext basepath ext \<notin> set cp \<and>
                     isfile fs (ensure_file_ext basepath ext)) exts"

text \<open>The fragment directories the second loop lists, in the order it lists them.\<close>

definition conf_dirs :: "filesystem \<Rightarrow> string \<Rightarrow> string list \<Rightarrow> string list" where
  "conf_dirs fs basepath exts =
     filter (isdir fs)
       (map (\<lambda>ext. ensure_file_ext (rstrip basepath ext) ''.d'') (filter (endswith basepath) exts))"

definition conf_d_records :: "filesystem \<Rightarrow> string list \<Rightarrow> string \<Rightarrow> visit list" where
  "conf_d_records fs cfg_exts conf_d =
     map (\<lambda>f. visit_record (osp_join conf_d f) (endswith_any f cfg_exts)) (sort (listdir fs conf_d))"

definition conf_d_paths :: "filesystem \<Rightarrow> string list \<Rightarrow> string \<Rightarrow> string list" where
  "conf_d_paths fs cfg_exts conf_d =
     map (osp_join conf_d) (filter (\<lambda>f. endswith_any f cfg_exts) (sort (listdir fs conf_d)))"

definition conf_d_found :: "filesystem \<Rightarrow> string list \<Rightarrow> string \<Rightarrow> bool" where
  "conf_d_found fs cfg_exts conf_d = list_ex (\<lambda>f. endswith_any f cfg_exts) (listdir fs conf_d)"

definition iset_add_all :: "string list \<Rightarrow> string list \<Rightarrow> string list" where
  "iset_add_all cp paths = foldl iset_add cp paths"

text \<open>One pass of \<open>try_file_extensions\<close> over a base path.\<close>

definition pass_collected :: "filesystem \<Rightarrow> string list \<Rightarrow> string \<Rightarrow> string list \<Rightarrow> string list" where
  "pass_collected fs cfg_exts basepath cp =
     iset_add_all (exts_collected fs basepath cfg_exts cp)
       (concat (map (conf_d_paths fs cfg_exts) (conf_dirs fs basepath ([] # cfg_exts))))"

definition pass_records :: "filesystem \<Rightarrow> string list \<Rightarrow> string \<Rightarrow> string list \<Rightarrow> visit list" where
  "pass_records fs cfg_exts basepath cp =
     exts_records fs basepath cfg_exts cp @
     concat (map (conf_d_records fs cfg_exts) (conf_dirs fs basepath ([] # cfg_exts)))"

definition pass_found :: "filesystem \<Rightarrow> string list \<Rightarrow> string \<Rightarrow> string list \<Rightarrow> bool" where
  \<comment> \<open>the first pass recorded a loaded file: a file that exists under one of the extensions
      and was not collected before, or a fragment entry with a configured extension\<close>
  "pass_found fs cfg_exts basepath cp =
     (exts_found fs basepath cfg_exts cp \<or>
      list_ex (conf_d_found fs cfg_exts) (conf_dirs fs basepath ([] # cfg_exts)))"

text \<open>One candidate of the path list, and the whole list.\<close>

definition cand_collected :: "filesystem \<Rightarrow> string list \<Rightarrow> string \<Rightarrow> string list \<Rightarrow> string list" where
  "cand_collected fs cfg_exts path cp =
     (if pass_found fs cfg_exts (convpath fs path) cp
      then pass_collected fs cfg_exts (convpath fs path) cp
      else pass_collected fs cfg_exts (fst (splitext (convpath fs path)))
             (pass_collected fs cfg_exts (convpath fs path) cp))"

definition cand_records :: "filesystem \<Rightarrow> string list \<Rightarrow> string \<Rightarrow> string list \<Rightarrow> visit list" where
  "cand_records fs cfg_exts path cp =
     (if pass_found fs cfg_exts (convpath fs path) cp
      then pass_records fs cfg_exts (convpath fs path) cp
      else pass_records fs cfg_exts (convpath fs path) cp @
           pass_records fs cfg_exts (fst (splitext (convpath fs path)))
             (pass_collected fs cfg_exts (convpath fs path) cp))"

fun list_collected :: "filesystem \<Rightarrow> string list \<Rightarrow> string list \<Rightarrow> string list \<Rightarrow> string list" where
  "list_collected fs cfg_exts [] cp = cp"
| "list_collected fs cfg_exts (cf # path_list) cp =
     list_collected fs cfg_exts path_list (cand_collected fs cfg_exts cf cp)"

fun list_records :: "filesystem \<Rightarrow> string list \<Rightarrow> string list \<Rightarrow> string list \<Rightarrow> visit list" where
  "list_records fs cfg_exts [] cp = []"
| "list_records fs cfg_exts (cf # path_list) cp =
     cand_records fs cfg_exts cf cp @
     list_records fs cfg_exts path_list (cand_collected fs cfg_exts cf cp)"

text \<open>Small file systems on which the statements are evaluated.\<close>

definition fs_one_json :: filesystem where
  \<comment> \<open>a single file \<open>/c.json\<close>, no directory\<close>
  "fs_one_json =
     \<lparr>convpath = (\<lambda>p. p), isfile = (\<lambda>p. p = ''/c.json''),
      isdir = (\<lambda>p. False), listdir = (\<lambda>p. [])\<rparr>"

definition fs_json_py :: filesystem where
  \<comment> \<open>the files \<open>/c.json\<close> and \<open>/c.py\<close>, no directory\<close>
  "fs_json_py =
     \<lparr>convpath = (\<lambda>p. p), isfile = (\<lambda>p. p = ''/c.json'' \<or> p = ''/c.py''),
      isdir = (\<lambda>p. False), listdir = (\<lambda>p. [])\<rparr>"

definition fs_conf_d :: filesystem where
  \<comment> \<open>the file \<open>/conf.py\<close> beside the directories \<open>/conf.d\<close> and \<open>/conf.py.d\<close>\<close>
  "fs_conf_d =
     \<lparr>convpath = (\<lambda>p. p), isfile = (\<lambda>p. p = ''/conf.py''),
      isdir = (\<lambda>p. p = ''/conf.d'' \<or> p = ''/conf.py.d''),
      listdir = (\<lambda>p. if p = ''/conf.d'' then [''b.txt'', ''a.py'', ''a.json'']
                      else if p = ''/conf.py.d'' then [''a.json''] else [])\<rparr>"

text \<open>A root command with one sub-command, in surroundings without any file.\<close>

definition sub_class :: cmd_class where
  "sub_class = CmdClass ''SubCmd'' [] [] [] []"

definition root_class :: cmd_class where
  "root_class = CmdClass ''RootCmd'' [(''sub'', sub_class)] [] [] []"

definition no_files :: filesystem where
  "no_files =
     \<lparr>convpath = (\<lambda>p. p), isfile = (\<lambda>p. False), isdir = (\<lambda>p. False), listdir = (\<lambda>p. [])\<rparr>"

definition bare_env :: environment where
  "bare_env =
     \<lparr>fsys = no_files, load_py = (\<lambda>p. FileNotFound), load_json = (\<lambda>p. FileNotFound),
      parse_options = (\<lambda>argv. [])\<rparr>"

definition empty_world :: world where
  "empty_world = \<lparr>store = (\<lambda>a. new_cmd (CmdClass [] [] [] [] []) None), next_id = 0, wlog = []\<rparr>"


text \<open>A parent and a child command with flags and aliases of their own.\<close>

definition child_cmd :: cmd where
  "child_cmd = (new_cmd sub_class (Some 0))
     \<lparr>flags := [(''debug'', [(''Cmd.verbose'', VBool False)], ''own'')],
      aliases := []\<rparr>"

definition parent_cmd :: cmd where
  "parent_cmd = (new_cmd root_class None)
     \<lparr>flags := [(''debug'', [(''Cmd.verbose'', VBool True)], ''inherited''),
                (''force'', [(''Cmd.force'', VBool True)], ''inherited'')],
      aliases := [(''config-paths'', ''Cmd.config_paths'')]\<rparr>"

definition loading_env :: environment where
  \<comment> \<open>\<open>/ok.py\<close> parses, \<open>/bad.json\<close> does not, every other file has vanished\<close>
  "loading_env =
     \<lparr>fsys = no_files,
      load_py = (\<lambda>p. if p = ''/ok.py'' then Loaded [(''Cmd.verbose'', VBool True)] else FileNotFound),
      load_json = (\<lambda>p. if p = ''/bad.json'' then LoadFailure ''Expecting value'' else FileNotFound),
      parse_options = (\<lambda>argv. [])\<rparr>"




text \<open>A folder \<open>/w\<close> that holds \<open>conf.py\<close>, and a moment of writing.\<close>

definition conf_disk :: disk where
  "conf_disk = (Map.empty(''/w'' \<mapsto> Dir, ''/w/conf.py'' \<mapsto> File ''c.Cmd.verbose = True''))"

definition conf_writing :: writing where
  "conf_writing =
     \<lparr>w_convpath = (\<lambda>p. p), w_now = ''20180502-103000'', w_config_text = ''# Configuration''\<rparr>"

definition bare_disk :: disk where
  \<comment> \<open>the working directory holds \<open>conf.py\<close>; paths are relative to it\<close>
  "bare_disk = (Map.empty(''conf.py'' \<mapsto> File ''c.Cmd.verbose = True''))"


text \<open>What a call on the instance \<open>i\<close> leaves untouched: the instances that existed, but \<open>i\<close>.\<close>

definition frame :: "world \<Rightarrow> world \<Rightarrow> nat \<Rightarrow> bool" where
  "frame w w' i = (next_id w \<le> next_id w' \<and> (\<forall>a. a < next_id w \<and> a \<noteq> i \<longrightarrow> store w' a = store w a))"


section \<open>Consolidation\<close>

lemma consolidate_finish:
  "consolidate visited = finish_groups (foldl consolidate_step ([], None) visited)"
  by (simp add: consolidate_def finish_groups_def)

lemma foldl_step_folders:
  "map fst (finish_groups (foldl consolidate_step (cons, Some p) vs)) =
     map fst cons @ remdups_adj (fst p # map fst vs)"
proof (induction vs arbitrary: cons p)
  case Nil
  then show ?case by (simp add: finish_groups_def)
next
  case (Cons v vs)
  obtain b f where v: "v = (b, f)" by (cases v)
  show ?case
    by (simp add: v Cons.IH)
qed

lemma foldl_step_names:
  "concat (map snd (finish_groups (foldl consolidate_step (cons, Some p) vs))) =
     concat (map snd cons) @ snd p @ loaded_names vs"
proof (induction vs arbitrary: cons p)
  case Nil
  then show ?case by (simp add: finish_groups_def loaded_names_def)
next
  case (Cons v vs)
  obtain b f where v: "v = (b, f)" by (cases v)
  show ?case
    by (simp add: v Cons.IH loaded_names_def)
qed

lemma consolidate_folders: "map fst (consolidate vs) = remdups_adj (map fst vs)"
proof (cases vs)
  case Nil
  then show ?thesis by (simp add: consolidate_finish finish_groups_def)
next
  case (Cons v vs')
  obtain b f where v: "v = (b, f)" by (cases v)
  show ?thesis
    by (simp add: Cons v consolidate_finish foldl_step_folders)
qed

lemma consolidate_names: "concat (map snd (consolidate vs)) = loaded_names vs"
proof (cases vs)
  case Nil
  then show ?thesis by (simp add: consolidate_finish finish_groups_def loaded_names_def)
next
  case (Cons v vs')
  obtain b f where v: "v = (b, f)" by (cases v)
  show ?thesis
    by (simp add: Cons v consolidate_finish foldl_step_names loaded_names_def)
qed

text \<open>
  C1 (as amended).  The public view \<open>config_tuples\<close> is the discovery-order fold
  itself and is not reversed: its folders are those of the visited records in visiting
  order with adjacent repetitions merged, its file names are the recorded names in
  visiting order, and its first group is the folder of the first record visited.
\<close>

theorem config_tuples_discovery_order:
  "config_tuples r = consolidate (visited_tuples r) \<and>
   map fst (config_tuples r) = remdups_adj (map fst (visited_tuples r)) \<and>
   concat (map snd (config_tuples r)) = loaded_names (visited_tuples r) \<and>
   fst (hd (config_tuples (r\<lparr>visited_tuples := v # vs\<rparr>))) = fst v"
proof -
  have "map fst (config_tuples (r\<lparr>visited_tuples := v # vs\<rparr>)) = remdups_adj (fst v # map fst vs)"
    by (simp add: config_tuples_def consolidate_folders)
  then have "fst (hd (config_tuples (r\<lparr>visited_tuples := v # vs\<rparr>))) = fst v"
    by (metis hd_map hd_remdups_adj list.sel(1) map_is_Nil_conv remdups_adj_Nil_iff list.distinct(1))
  then show ?thesis
    by (simp add: config_tuples_def consolidate_folders consolidate_names)
qed

text \<open>
  C1 as stated fails: with two records in two folders the public view differs from the
  reverse of the fold, and its first group is the folder probed first, not last.
\<close>

theorem config_tuples_not_reversed:
  "config_tuples (default_registry\<lparr>visited_tuples := [(''/a'', Some ''F1''), (''/b'', Some ''F2'')]\<rparr>)
     \<noteq> rev (consolidate [(''/a'', Some ''F1''), (''/b'', Some ''F2'')]) \<and>
   fst (hd (config_tuples
     (default_registry\<lparr>visited_tuples := [(''/a'', Some ''F1''), (''/b'', Some ''F2'')]\<rparr>))) = ''/a'' \<and>
   fst (last [(''/a'', Some ''F1''), (''/b'', Some ''F2'')]) = ''/b''"
  by (simp add: config_tuples_def consolidate_def truthy_name_def)


section \<open>Collecting: the loops in closed form\<close>


lemma visit_file_collecting:
  assumes "collected_paths r = Some cp"
  shows "visit_file r f l =
           Inr (r\<lparr>visited_tuples := visited_tuples r @ [visit_record f l],
                  collected_paths := Some (if l then iset_add cp f else cp)\<rparr>)"
  using assms by (cases "osp_split f") (simp add: visit_file_def visit_record_def)

lemma try_exts_run:
  assumes "collected_paths r = Some cp"
  shows "try_exts fs bp exts (r, la) =
           Inr (r\<lparr>visited_tuples := visited_tuples r @ exts_records fs bp exts cp,
                  collected_paths := Some (exts_collected fs bp exts cp)\<rparr>,
                la \<or> exts_found fs bp exts cp)"
  using assms
proof (induction exts arbitrary: r cp la)
  case Nil
  then show ?case by (simp add: exts_found_def)
next
  case (Cons ext exts)
  let ?f = "ensure_file_ext bp ext"
  show ?case
  proof (cases "?f \<in> set cp")
    case True
    then show ?thesis
      using Cons.prems Cons.IH[OF Cons.prems, of la]
      by (simp add: in_collected_def exts_found_def)
  next
    case False
    let ?l = "isfile fs ?f"
    let ?cp = "if ?l then cp @ [?f] else cp"
    let ?r = "r\<lparr>visited_tuples := visited_tuples r @ [visit_record ?f ?l],
                  collected_paths := Some ?cp\<rparr>"
    have v: "visit_file r ?f ?l = Inr ?r"
      using False by (simp add: visit_file_collecting[OF Cons.prems] iset_add_def)
    have c: "collected_paths ?r = Some ?cp" by simp
    have found: "(?l \<or> exts_found fs bp exts ?cp) = exts_found fs bp (ext # exts) cp"
      using False by (cases ?l) (simp_all add: exts_found_def)
    show ?thesis
      using False Cons.prems Cons.IH[OF c, of "la \<or> ?l"] found
      by (simp add: in_collected_def v Let_def)
  qed
qed


lemma iset_add_all_append: "iset_add_all (iset_add_all cp xs) ys = iset_add_all cp (xs @ ys)"
  by (simp add: iset_add_all_def)

lemma visit_conf_d_run:
  assumes "collected_paths r = Some cp"
  shows "visit_conf_d cfg_exts d names (r, la) =
           Inr (r\<lparr>visited_tuples := visited_tuples r @
                    map (\<lambda>f. visit_record (osp_join d f) (endswith_any f cfg_exts)) names,
                  collected_paths := Some (iset_add_all cp
                    (map (osp_join d) (filter (\<lambda>f. endswith_any f cfg_exts) names)))\<rparr>,
                la \<or> list_ex (\<lambda>f. endswith_any f cfg_exts) names)"
  using assms
proof (induction names arbitrary: r cp la)
  case Nil
  then show ?case by (simp add: iset_add_all_def)
next
  case (Cons f names)
  let ?l = "endswith_any f cfg_exts"
  let ?cp = "if ?l then iset_add cp (osp_join d f) else cp"
  let ?r = "r\<lparr>visited_tuples := visited_tuples r @ [visit_record (osp_join d f) ?l],
                collected_paths := Some ?cp\<rparr>"
  have v: "visit_file r (osp_join d f) ?l = Inr ?r"
    by (rule visit_file_collecting[OF Cons.prems])
  have c: "collected_paths ?r = Some ?cp" by simp
  show ?case
    using Cons.IH[OF c, of "la \<or> ?l"]
    by (simp add: v Let_def iset_add_all_def)
qed

lemma try_conf_d_run:
  assumes "collected_paths r = Some cp"
  shows "try_conf_d fs cfg_exts bp exts (r, la) =
           Inr (r\<lparr>visited_tuples := visited_tuples r @
                    concat (map (conf_d_records fs cfg_exts) (conf_dirs fs bp exts)),
                  collected_paths := Some (iset_add_all cp
                    (concat (map (conf_d_paths fs cfg_exts) (conf_dirs fs bp exts))))\<rparr>,
                la \<or> list_ex (conf_d_found fs cfg_exts) (conf_dirs fs bp exts))"
  using assms
proof (induction exts arbitrary: r cp la)
  case Nil
  then show ?case by (simp add: conf_dirs_def iset_add_all_def)
next
  case (Cons ext exts)
  let ?d = "ensure_file_ext (rstrip bp ext) ''.d''"
  show ?case
  proof (cases "endswith bp ext \<and> isdir fs ?d")
    case False
    then show ?thesis
      using Cons.IH[OF Cons.prems, of la] by (auto simp: conf_dirs_def Let_def)
  next
    case True
    let ?cp = "iset_add_all cp (conf_d_paths fs cfg_exts ?d)"
    let ?la = "la \<or> conf_d_found fs cfg_exts ?d"
    let ?r = "r\<lparr>visited_tuples := visited_tuples r @ conf_d_records fs cfg_exts ?d,
                  collected_paths := Some ?cp\<rparr>"
    have v: "visit_conf_d cfg_exts ?d (sort (listdir fs ?d)) (r, la) = Inr (?r, ?la)"
      by (simp add: visit_conf_d_run[OF Cons.prems] conf_d_records_def conf_d_paths_def
            conf_d_found_def list_ex_iff)
    have c: "collected_paths ?r = Some ?cp" by simp
    have dirs: "conf_dirs fs bp (ext # exts) = ?d # conf_dirs fs bp exts"
      using True by (simp add: conf_dirs_def)
    show ?thesis
      using True Cons.IH[OF c, of ?la]
      by (simp add: v dirs Let_def iset_add_all_append)
  qed
qed

lemma try_file_extensions_run:
  assumes "collected_paths r = Some cp"
  shows "try_file_extensions fs cfg_exts r bp =
           Inr (r\<lparr>visited_tuples := visited_tuples r @ pass_records fs cfg_exts bp cp,
                  collected_paths := Some (pass_collected fs cfg_exts bp cp)\<rparr>,
                pass_found fs cfg_exts bp cp)"
proof -
  let ?r = "r\<lparr>visited_tuples := visited_tuples r @ exts_records fs bp cfg_exts cp,
                collected_paths := Some (exts_collected fs bp cfg_exts cp)\<rparr>"
  have c: "collected_paths ?r = Some (exts_collected fs bp cfg_exts cp)" by simp
  show ?thesis
    unfolding try_file_extensions_def try_exts_run[OF assms]
    by (simp add: try_conf_d_run[OF c] pass_records_def pass_collected_def pass_found_def)
qed

lemma derive_config_fpaths_run:
  assumes "collected_paths r = Some cp"
  shows "derive_config_fpaths fs cfg_exts r path =
           Inr (r\<lparr>visited_tuples := visited_tuples r @ cand_records fs cfg_exts path cp,
                  collected_paths := Some (cand_collected fs cfg_exts path cp)\<rparr>)"
proof -
  let ?p = "convpath fs path"
  let ?r = "r\<lparr>visited_tuples := visited_tuples r @ pass_records fs cfg_exts ?p cp,
                collected_paths := Some (pass_collected fs cfg_exts ?p cp)\<rparr>"
  have c: "collected_paths ?r = Some (pass_collected fs cfg_exts ?p cp)" by simp
  show ?thesis
    unfolding derive_config_fpaths_def Let_def try_file_extensions_run[OF assms]
    by (simp add: try_file_extensions_run[OF c] cand_records_def cand_collected_def)
qed

lemma collect_loop_run:
  assumes "collected_paths r = Some cp"
  shows "collect_loop fs cfg_exts r path_list =
           Inr (r\<lparr>visited_tuples := visited_tuples r @ list_records fs cfg_exts path_list cp,
                  collected_paths := Some (list_collected fs cfg_exts path_list cp)\<rparr>)"
  using assms
proof (induction path_list arbitrary: r cp)
  case Nil
  then show ?case by simp
next
  case (Cons cf path_list)
  let ?r = "r\<lparr>visited_tuples := visited_tuples r @ cand_records fs cfg_exts cf cp,
                collected_paths := Some (cand_collected fs cfg_exts cf cp)\<rparr>"
  have c: "collected_paths ?r = Some (cand_collected fs cfg_exts cf cp)" by simp
  show ?case
    by (simp add: derive_config_fpaths_run[OF Cons.prems] Cons.IH[OF c])
qed

lemma collect_fpaths_run:
  "collect_fpaths fs r path_list =
     Inr (r\<lparr>visited_tuples := visited_tuples r @
              list_records fs (supported_cfg_extensions r) path_list [],
            collected_paths := Some (list_collected fs (supported_cfg_extensions r) path_list [])\<rparr>,
          list_collected fs (supported_cfg_extensions r) path_list [])"
proof -
  have c: "collected_paths (r\<lparr>collected_paths := Some []\<rparr>) = Some []" by simp
  show ?thesis
    unfolding collect_fpaths_def Let_def
    by (simp add: collect_loop_run[OF c])
qed


section \<open>Collecting: what a call leaves behind\<close>

lemma is_loaded_visit_record [simp]: "is_loaded (visit_record f l) = l"
  by (simp add: is_loaded_def visit_record_def)

lemma distinct_iset_add: "distinct cp \<Longrightarrow> distinct (iset_add cp x)"
  by (simp add: iset_add_def)

lemma distinct_iset_add_all: "distinct cp \<Longrightarrow> distinct (iset_add_all cp xs)"
  unfolding iset_add_all_def
  by (induction xs arbitrary: cp) (simp_all add: distinct_iset_add)

lemma distinct_exts_collected: "distinct cp \<Longrightarrow> distinct (exts_collected fs bp exts cp)"
  by (induction exts arbitrary: cp) simp_all

lemma distinct_pass_collected: "distinct cp \<Longrightarrow> distinct (pass_collected fs cfg_exts bp cp)"
  by (simp add: pass_collected_def distinct_iset_add_all distinct_exts_collected)

lemma distinct_cand_collected: "distinct cp \<Longrightarrow> distinct (cand_collected fs cfg_exts path cp)"
  by (simp add: cand_collected_def distinct_pass_collected)

lemma distinct_list_collected: "distinct cp \<Longrightarrow> distinct (list_collected fs cfg_exts pl cp)"
  by (induction pl arbitrary: cp) (simp_all add: distinct_cand_collected)

lemma exts_loaded_records:
  "map (\<lambda>p. visit_record p True) (exts_collected fs bp exts cp) =
     map (\<lambda>p. visit_record p True) cp @ filter is_loaded (exts_records fs bp exts cp)"
  by (induction exts arbitrary: cp) simp_all

lemma no_dirs_conf_dirs: "\<forall>d. \<not> isdir fs d \<Longrightarrow> conf_dirs fs bp exts = []"
  by (simp add: conf_dirs_def)

lemma pass_loaded_records:
  assumes "\<forall>d. \<not> isdir fs d"
  shows "map (\<lambda>p. visit_record p True) (pass_collected fs cfg_exts bp cp) =
     map (\<lambda>p. visit_record p True) cp @ filter is_loaded (pass_records fs cfg_exts bp cp)"
  by (simp add: pass_collected_def pass_records_def no_dirs_conf_dirs[OF assms]
        iset_add_all_def exts_loaded_records)

lemma cand_loaded_records:
  assumes "\<forall>d. \<not> isdir fs d"
  shows "map (\<lambda>p. visit_record p True) (cand_collected fs cfg_exts path cp) =
     map (\<lambda>p. visit_record p True) cp @ filter is_loaded (cand_records fs cfg_exts path cp)"
  by (simp add: cand_collected_def cand_records_def pass_loaded_records[OF assms])

lemma list_loaded_records:
  assumes "\<forall>d. \<not> isdir fs d"
  shows "map (\<lambda>p. visit_record p True) (list_collected fs cfg_exts pl cp) =
     map (\<lambda>p. visit_record p True) cp @ filter is_loaded (list_records fs cfg_exts pl cp)"
  by (induction pl arbitrary: cp) (simp_all add: cand_loaded_records[OF assms])

text \<open>
  C4 (as amended).  \<open>collect_fpaths\<close> always returns.  Its result is a list without
  repetitions; a second call with the same path list on the registry the first call left
  returns the same list (the collected set is created anew by every call), and appends
  the records of the first call once more to \<open>_visited_tuples\<close>.  Within one call
  over a file system without fragment directories, the loaded records it appends are
  exactly one per collected path, in collection order: a path already in the collected
  set is skipped by the extension probes.
\<close>

theorem collect_fpaths_twice:
  "\<exists>ps delta.
     collect_fpaths fs r path_list =
       Inr (r\<lparr>visited_tuples := visited_tuples r @ delta, collected_paths := Some ps\<rparr>, ps) \<and>
     collect_fpaths fs (r\<lparr>visited_tuples := visited_tuples r @ delta, collected_paths := Some ps\<rparr>)
         path_list =
       Inr (r\<lparr>visited_tuples := visited_tuples r @ delta @ delta, collected_paths := Some ps\<rparr>, ps) \<and>
     distinct ps \<and>
     ((\<forall>d. \<not> isdir fs d) \<longrightarrow> filter is_loaded delta = map (\<lambda>p. visit_record p True) ps)"
proof -
  let ?ps = "list_collected fs (supported_cfg_extensions r) path_list []"
  let ?delta = "list_records fs (supported_cfg_extensions r) path_list []"
  have 1: "collect_fpaths fs r path_list =
       Inr (r\<lparr>visited_tuples := visited_tuples r @ ?delta, collected_paths := Some ?ps\<rparr>, ?ps)"
    by (rule collect_fpaths_run)
  have 2: "collect_fpaths fs (r\<lparr>visited_tuples := visited_tuples r @ ?delta, collected_paths := Some ?ps\<rparr>)
         path_list =
       Inr (r\<lparr>visited_tuples := visited_tuples r @ ?delta @ ?delta, collected_paths := Some ?ps\<rparr>, ?ps)"
    by (simp add: collect_fpaths_run)
  have 3: "distinct ?ps" by (simp add: distinct_list_collected)
  have 4: "(\<forall>d. \<not> isdir fs d) \<longrightarrow> filter is_loaded ?delta = map (\<lambda>p. visit_record p True) ?ps"
    using list_loaded_records[of fs "supported_cfg_extensions r" path_list "[]"] by simp
  from 1 2 3 4 show ?thesis by blast
qed

lemmas eval_simps = collect_fpaths_def derive_config_fpaths_def try_file_extensions_def
  visit_file_def ensure_file_ext_def endswith_def endswith_any_def osp_split_def osp_join_def
  splitext_def rstrip_def in_collected_def iset_add_def default_registry_def new_registry_def
  visit_record_def is_loaded_def Let_def

text \<open>Witness for C4: the file system with the single file \<open>/c.json\<close>.\<close>

theorem collect_fpaths_twice_witness:
  "(\<forall>d. \<not> isdir fs_one_json d) \<and>
   (\<exists>ps delta.
     collect_fpaths fs_one_json default_registry [''/c''] =
       Inr (default_registry\<lparr>visited_tuples := visited_tuples default_registry @ delta,
                              collected_paths := Some ps\<rparr>, ps) \<and>
     distinct ps \<and>
     filter is_loaded delta = map (\<lambda>p. visit_record p True) ps)"
proof -
  have h: "\<forall>d. \<not> isdir fs_one_json d" by (simp add: fs_one_json_def)
  show ?thesis
    using h collect_fpaths_twice[of fs_one_json default_registry "[''/c'']"] by blast
qed

text \<open>
  C4 as stated fails: the second call with the same path list visits \<open>/c.json\<close>
  again and appends a second record for it.
\<close>

theorem collect_fpaths_twice_duplicates:
  "collect_fpaths fs_one_json default_registry [''/c''] =
     Inr (default_registry\<lparr>visited_tuples := [(''/'', Some ''c.json''), (''/'', None)],
                            collected_paths := Some [''/c.json'']\<rparr>, [''/c.json'']) \<and>
   collect_fpaths fs_one_json
       (default_registry\<lparr>visited_tuples := [(''/'', Some ''c.json''), (''/'', None)],
                          collected_paths := Some [''/c.json'']\<rparr>) [''/c''] =
     Inr (default_registry\<lparr>visited_tuples :=
             [(''/'', Some ''c.json''), (''/'', None), (''/'', Some ''c.json''), (''/'', None)],
           collected_paths := Some [''/c.json'']\<rparr>, [''/c.json''])"
  by (simp add: eval_simps fs_one_json_def)

section \<open>The retry with the extension stripped\<close>

lemma pass_found_iff:
  "pass_found fs cfg_exts p cp =
     ((\<exists>ext\<in>set cfg_exts. ensure_file_ext p ext \<notin> set cp \<and> isfile fs (ensure_file_ext p ext)) \<or>
      (\<exists>ext\<in>set ([] # cfg_exts). endswith p ext \<and> isdir fs (ensure_file_ext (rstrip p ext) ''.d'') \<and>
         (\<exists>f\<in>set (listdir fs (ensure_file_ext (rstrip p ext) ''.d'')). endswith_any f cfg_exts)))"
  unfolding pass_found_def exts_found_def conf_dirs_def conf_d_found_def list_ex_iff
  by auto

text \<open>
  C6 (as amended).  For a candidate \<open>path\<close>, \<open>_derive_config_fpaths\<close> runs the
  second pass on \<open>splitext(p)[0]\<close> if and only if the first pass recorded no loaded
  file: no file exists under a configured extension that was not collected already, and
  no entry of an existing fragment directory ends with a configured extension.
\<close>

theorem derive_retry_iff:
  assumes "collected_paths r = Some cp"
  shows "\<exists>r1 found.
     found = ((\<exists>ext\<in>set cfg_exts. ensure_file_ext (convpath fs path) ext \<notin> set cp \<and>
                  isfile fs (ensure_file_ext (convpath fs path) ext)) \<or>
              (\<exists>ext\<in>set ([] # cfg_exts). endswith (convpath fs path) ext \<and>
                  isdir fs (ensure_file_ext (rstrip (convpath fs path) ext) ''.d'') \<and>
                  (\<exists>f\<in>set (listdir fs (ensure_file_ext (rstrip (convpath fs path) ext) ''.d'')).
                      endswith_any f cfg_exts))) \<and>
     try_file_extensions fs cfg_exts r (convpath fs path) = Inr (r1, found) \<and>
     derive_config_fpaths fs cfg_exts r path =
       (if found then Inr r1
        else map_sum id fst (try_file_extensions fs cfg_exts r1 (fst (splitext (convpath fs path)))))"
proof -
  let ?p = "convpath fs path"
  let ?r1 = "r\<lparr>visited_tuples := visited_tuples r @ pass_records fs cfg_exts ?p cp,
                collected_paths := Some (pass_collected fs cfg_exts ?p cp)\<rparr>"
  have c: "collected_paths ?r1 = Some (pass_collected fs cfg_exts ?p cp)" by simp
  have 1: "try_file_extensions fs cfg_exts r ?p = Inr (?r1, pass_found fs cfg_exts ?p cp)"
    by (rule try_file_extensions_run[OF assms])
  have 2: "derive_config_fpaths fs cfg_exts r path =
       (if pass_found fs cfg_exts ?p cp then Inr ?r1
        else map_sum id fst (try_file_extensions fs cfg_exts ?r1 (fst (splitext ?p))))"
    unfolding derive_config_fpaths_def Let_def 1
    by (simp add: try_file_extensions_run[OF c])
  show ?thesis
    using 1 2 pass_found_iff[of fs cfg_exts ?p cp] by blast
qed

text \<open>Witness for C6: \<open>/c.json\<close> exists and is not collected yet, so no retry.\<close>

theorem derive_retry_iff_witness:
  "collected_paths (default_registry\<lparr>collected_paths := Some []\<rparr>) = Some [] \<and>
   derive_config_fpaths fs_json_py [''.json'', ''.py'']
       (default_registry\<lparr>collected_paths := Some []\<rparr>) ''/c.json'' =
     Inr (default_registry\<lparr>visited_tuples := [(''/'', Some ''c.json''), (''/'', None)],
                            collected_paths := Some [''/c.json'']\<rparr>)"
proof -
  have h: "collected_paths (default_registry\<lparr>collected_paths := Some []\<rparr>) = Some []" by simp
  from derive_retry_iff[OF h, of "[''.json'', ''.py'']" fs_json_py "''/c.json''"]
  obtain r1 found where
    f: "found = ((\<exists>ext\<in>set [''.json'', ''.py'']. ensure_file_ext (convpath fs_json_py ''/c.json'') ext \<notin> set [] \<and>
                  isfile fs_json_py (ensure_file_ext (convpath fs_json_py ''/c.json'') ext)) \<or>
              (\<exists>ext\<in>set ([] # [''.json'', ''.py'']). endswith (convpath fs_json_py ''/c.json'') ext \<and>
                  isdir fs_json_py (ensure_file_ext (rstrip (convpath fs_json_py ''/c.json'') ext) ''.d'') \<and>
                  (\<exists>f\<in>set (listdir fs_json_py (ensure_file_ext (rstrip (convpath fs_json_py ''/c.json'') ext) ''.d'')).
                      endswith_any f [''.json'', ''.py''])))"
    and t: "try_file_extensions fs_json_py [''.json'', ''.py''] (default_registry\<lparr>collected_paths := Some []\<rparr>)
              (convpath fs_json_py ''/c.json'') = Inr (r1, found)"
    and d: "derive_config_fpaths fs_json_py [''.json'', ''.py''] (default_registry\<lparr>collected_paths := Some []\<rparr>) ''/c.json'' =
       (if found then Inr r1
        else map_sum id fst (try_file_extensions fs_json_py [''.json'', ''.py''] r1 (fst (splitext (convpath fs_json_py ''/c.json'')))))"
    by blast
  have "found" unfolding f by (simp add: fs_json_py_def ensure_file_ext_def endswith_def)
  moreover have "r1 = default_registry\<lparr>visited_tuples := [(''/'', Some ''c.json''), (''/'', None)],
                            collected_paths := Some [''/c.json'']\<rparr>"
    using t by (simp add: eval_simps fs_json_py_def)
  ultimately show ?thesis using d h by simp
qed

text \<open>
  C6 as stated fails: when \<open>/c.json\<close> is collected already (the path list names it
  twice), the file exists, the first pass skips it, and the retry on \<open>/c\<close> takes
  place and collects \<open>/c.py\<close>.
\<close>

theorem derive_retry_although_file_exists:
  "isfile fs_json_py (ensure_file_ext (convpath fs_json_py ''/c.json'') ''.json'') \<and>
   derive_config_fpaths fs_json_py [''.json'', ''.py'']
       (default_registry\<lparr>visited_tuples := [(''/'', Some ''c.json''), (''/'', None)],
                          collected_paths := Some [''/c.json'']\<rparr>) ''/c.json'' =
     Inr (default_registry\<lparr>visited_tuples :=
             [(''/'', Some ''c.json''), (''/'', None), (''/'', None), (''/'', Some ''c.py'')],
           collected_paths := Some [''/c.json'', ''/c.py'']\<rparr>)"
  by (simp add: eval_simps fs_json_py_def)

section \<open>Fragment directories\<close>

lemma rstrip_suffix:
  assumes "endswith bp ext" and "take (length bp - length ext) bp = [] \<or> last (take (length bp - length ext) bp) \<notin> set ext"
  shows "rstrip bp ext = take (length bp - length ext) bp"
proof -
  let ?stem = "take (length bp - length ext) bp"
  from assms(1) have "take (length ext) (rev bp) = rev ext" by (simp add: endswith_def)
  then have le: "length ext \<le> length bp"
    by (metis length_rev length_take min.absorb_iff2 min.cobounded1 min.commute)
  have "rev bp = take (length ext) (rev bp) @ drop (length ext) (rev bp)" by simp
  also have "\<dots> = rev ext @ rev ?stem"
    using \<open>take (length ext) (rev bp) = rev ext\<close> by (simp add: rev_take[symmetric] drop_rev)
  finally have rb: "rev bp = rev ext @ rev ?stem" .
  have "dropWhile (\<lambda>c. c \<in> set ext) (rev ext @ rev ?stem) = dropWhile (\<lambda>c. c \<in> set ext) (rev ?stem)"
    by (simp add: dropWhile_append)
  also have "\<dots> = rev ?stem"
  proof (cases "?stem = []")
    case True
    then have "rev ?stem = []" by simp
    then show ?thesis by (simp only: dropWhile.simps)
  next
    case False
    with assms(2) have "last ?stem \<notin> set ext" by simp
    then have "hd (rev ?stem) \<notin> set ext" using False by (simp add: hd_rev)
    then show ?thesis using False by (cases "rev ?stem") simp_all
  qed
  finally show ?thesis by (simp add: rstrip_def rb)
qed

lemma conf_dirs_clean:
  assumes "\<forall>ext\<in>set cfg_exts. endswith bp ext \<longrightarrow>
             (let stem = take (length bp - length ext) bp in stem = [] \<or> last stem \<notin> set ext)"
  shows "conf_dirs fs bp ([] # cfg_exts) =
           filter (isdir fs) (ensure_file_ext bp ''.d'' #
             map (\<lambda>ext. ensure_file_ext (take (length bp - length ext) bp) ''.d'')
               (filter (endswith bp) cfg_exts))"
proof -
  have m: "map (\<lambda>ext. ensure_file_ext (rstrip bp ext) ''.d'') (filter (endswith bp) cfg_exts) =
        map (\<lambda>ext. ensure_file_ext (take (length bp - length ext) bp) ''.d'') (filter (endswith bp) cfg_exts)"
    using assms by (intro map_cong) (auto simp: rstrip_suffix Let_def)
  have e: "endswith bp []" by (simp add: endswith_def)
  have r: "rstrip bp [] = bp" by (simp add: rstrip_def)
  show ?thesis by (simp add: conf_dirs_def e r m)
qed

text \<open>
  C5 (as amended).  For a base path whose stem before a matched configured extension is
  empty or does not end in a character of that extension, \<open>try_file_extensions\<close>
  lists these fragment directories, in this order: the base path itself with \<open>.d\<close>
  appended, then, for every configured extension the base path ends with, the base path
  without that extension with \<open>.d\<close> appended.  The entries of each directory that
  exists are visited in sorted order of their names, after all extension probes of the
  same base path, and an entry is recorded as loaded if and only if its name ends with a
  configured extension.
\<close>

theorem try_file_extensions_fragments:
  assumes "collected_paths r = Some cp"
    and "\<forall>ext\<in>set cfg_exts. endswith bp ext \<longrightarrow>
           (let stem = take (length bp - length ext) bp in stem = [] \<or> last stem \<notin> set ext)"
  shows "\<exists>r1 la1 r2 la2.
     try_exts fs bp cfg_exts (r, False) = Inr (r1, la1) \<and>
     try_file_extensions fs cfg_exts r bp = Inr (r2, la2) \<and>
     visited_tuples r2 = visited_tuples r1 @
       concat (map (\<lambda>d. map (\<lambda>f. visit_record (osp_join d f) (endswith_any f cfg_exts))
                              (sort (listdir fs d)))
                (filter (isdir fs)
                   (ensure_file_ext bp ''.d'' #
                    map (\<lambda>ext. ensure_file_ext (take (length bp - length ext) bp) ''.d'')
                        (filter (endswith bp) cfg_exts))))"
proof -
  have 1: "try_exts fs bp cfg_exts (r, False) =
           Inr (r\<lparr>visited_tuples := visited_tuples r @ exts_records fs bp cfg_exts cp,
                  collected_paths := Some (exts_collected fs bp cfg_exts cp)\<rparr>,
                False \<or> exts_found fs bp cfg_exts cp)"
    by (rule try_exts_run[OF assms(1)])
  have 2: "try_file_extensions fs cfg_exts r bp =
           Inr (r\<lparr>visited_tuples := visited_tuples r @ pass_records fs cfg_exts bp cp,
                  collected_paths := Some (pass_collected fs cfg_exts bp cp)\<rparr>,
                pass_found fs cfg_exts bp cp)"
    by (rule try_file_extensions_run[OF assms(1)])
  have 3: "pass_records fs cfg_exts bp cp = exts_records fs bp cfg_exts cp @
       concat (map (\<lambda>d. map (\<lambda>f. visit_record (osp_join d f) (endswith_any f cfg_exts))
                              (sort (listdir fs d)))
                (filter (isdir fs)
                   (ensure_file_ext bp ''.d'' #
                    map (\<lambda>ext. ensure_file_ext (take (length bp - length ext) bp) ''.d'')
                        (filter (endswith bp) cfg_exts))))"
    unfolding pass_records_def conf_dirs_clean[OF assms(2)]
    by (simp add: conf_d_records_def[abs_def])
  show ?thesis
    unfolding 1 2 using 3 by simp
qed

text \<open>Witness for C5: \<open>/conf.py\<close> beside \<open>/conf.py.d\<close> and \<open>/conf.d\<close>.\<close>

theorem try_file_extensions_fragments_witness:
  "collected_paths (default_registry\<lparr>collected_paths := Some []\<rparr>) = Some [] \<and>
   (\<exists>r1 la1 r2 la2.
     try_exts fs_conf_d ''/conf.py'' [''.json'', ''.py'']
       (default_registry\<lparr>collected_paths := Some []\<rparr>, False) = Inr (r1, la1) \<and>
     try_file_extensions fs_conf_d [''.json'', ''.py'']
       (default_registry\<lparr>collected_paths := Some []\<rparr>) ''/conf.py'' = Inr (r2, la2) \<and>
     visited_tuples r2 = visited_tuples r1 @
       [(''/conf.py.d'', Some ''a.json''),
        (''/conf.d'', Some ''a.json''), (''/conf.d'', Some ''a.py''), (''/conf.d'', None)])"
proof -
  have h1: "collected_paths (default_registry\<lparr>collected_paths := Some []\<rparr>) = Some []" by simp
  have h2: "\<forall>ext\<in>set [''.json'', ''.py'']. endswith ''/conf.py'' ext \<longrightarrow>
           (let stem = take (length ''/conf.py'' - length ext) ''/conf.py''
            in stem = [] \<or> last stem \<notin> set ext)"
    by (simp add: endswith_def)
  have e: "concat (map (\<lambda>d. map (\<lambda>f. visit_record (osp_join d f) (endswith_any f [''.json'', ''.py'']))
                              (sort (listdir fs_conf_d d)))
                (filter (isdir fs_conf_d)
                   (ensure_file_ext ''/conf.py'' ''.d'' #
                    map (\<lambda>ext. ensure_file_ext (take (length ''/conf.py'' - length ext) ''/conf.py'') ''.d'')
                        (filter (endswith ''/conf.py'') [''.json'', ''.py'']))))
         = [(''/conf.py.d'', Some ''a.json''),
            (''/conf.d'', Some ''a.json''), (''/conf.d'', Some ''a.py''), (''/conf.d'', None)]"
    by (simp add: eval_simps fs_conf_d_def)
  show ?thesis
    using h1 try_file_extensions_fragments[OF h1 h2, of fs_conf_d] unfolding e by blast
qed

text \<open>
  C5 as stated fails: for the candidate \<open>/conf.py\<close> the entries of
  \<open>/conf.py.d\<close> are visited too, not only those of \<open>/conf.d\<close>, the directory
  obtained by stripping the extension.
\<close>

theorem fragments_of_extensioned_candidate:
  "map_sum id (\<lambda>(r, loaded_any). visited_tuples r)
     (try_file_extensions fs_conf_d [''.json'', ''.py'']
        (default_registry\<lparr>collected_paths := Some []\<rparr>) ''/conf.py'') =
   Inr [(''/'', None), (''/'', Some ''conf.py''),
        (''/conf.py.d'', Some ''a.json''),
        (''/conf.d'', Some ''a.json''), (''/conf.d'', Some ''a.py''), (''/conf.d'', None)]"
  by (simp add: eval_simps fs_conf_d_def)

section \<open>Visiting by hand\<close>

text \<open>
  C10.  On a registry fresh from its constructor, \<open>visit_file(path, loaded=True)\<close>
  fails, because \<open>collected_paths\<close> does not exist yet, while
  \<open>visit_file(path, loaded=False)\<close> succeeds and appends \<open>(folder, None)\<close>; after a
  call of \<open>collect_fpaths\<close>, visiting a loaded file succeeds.
\<close>

theorem visit_file_needs_collect:
  "visit_file (new_registry exts) path True = Inl (AttributeError ''collected_paths'') \<and>
   visit_file (new_registry exts) path False =
     Inr ((new_registry exts)\<lparr>visited_tuples := [(fst (osp_split path), None)]\<rparr>) \<and>
   (\<exists>r' ps r''. collect_fpaths fs (new_registry exts) path_list = Inr (r', ps) \<and>
                visit_file r' path True = Inr r'')"
proof -
  have "visit_file (new_registry exts) path True = Inl (AttributeError ''collected_paths'')"
    by (simp add: visit_file_def new_registry_def split: prod.splits)
  moreover have "visit_file (new_registry exts) path False =
     Inr ((new_registry exts)\<lparr>visited_tuples := [(fst (osp_split path), None)]\<rparr>)"
    by (simp add: visit_file_def new_registry_def split: prod.splits)
  moreover have "\<exists>r' ps r''. collect_fpaths fs (new_registry exts) path_list = Inr (r', ps) \<and>
                visit_file r' path True = Inr r''"
    unfolding collect_fpaths_run
    by (simp add: visit_file_collecting[where cp = "list_collected fs (supported_cfg_extensions (new_registry exts)) path_list []"])
  ultimately show ?thesis by blast
qed

section \<open>Inheriting flags and aliases\<close>

lemma map_of_dict_update:
  assumes "distinct (map fst other)"
  shows "map_of (dict_update d other) k =
           (case map_of other k of Some v \<Rightarrow> Some v | None \<Rightarrow> map_of d k)"
  using assms
proof (induction other arbitrary: d)
  case Nil
  then show ?case by (simp add: dict_update_def)
next
  case (Cons e other)
  obtain a b where e: "e = (a, b)" by (cases e)
  from Cons.prems have d: "distinct (map fst other)" and a: "a \<notin> fst ` set other"
    by (simp_all add: e)
  have step: "dict_update d (e # other) = dict_update (AList.update a b d) other"
    by (simp add: dict_update_def e)
  from a have none: "map_of other a = None"
    by (simp add: map_of_eq_None_iff)
  show ?case
    unfolding step Cons.IH[OF d]
    by (cases "k = a") (simp_all add: e none update_conv' split: option.splits)
qed


text \<open>
  C7.  When a parent with non-empty flags is attached: a child without flags of its own
  gets exactly the parent's flags; a child with flags of its own maps every key it
  defined to its own value and every other key to the parent's value.  The same holds
  for the aliases.  (A Python dictionary holds each key once.)
\<close>

theorem inherit_parent_cmd_maps:
  assumes "distinct (map fst (flags c))" and "distinct (map fst (aliases c))"
  shows "(flags p \<noteq> [] \<longrightarrow>
            (flags c = [] \<longrightarrow> flags (inherit_parent_cmd c (Some p)) = flags p) \<and>
            (flags c \<noteq> [] \<longrightarrow>
               (\<forall>k. map_of (flags (inherit_parent_cmd c (Some p))) k =
                      (case map_of (flags c) k of Some v \<Rightarrow> Some v | None \<Rightarrow> map_of (flags p) k)))) \<and>
         (aliases p \<noteq> [] \<longrightarrow>
            (aliases c = [] \<longrightarrow> aliases (inherit_parent_cmd c (Some p)) = aliases p) \<and>
            (aliases c \<noteq> [] \<longrightarrow>
               (\<forall>k. map_of (aliases (inherit_parent_cmd c (Some p))) k =
                      (case map_of (aliases c) k of Some v \<Rightarrow> Some v | None \<Rightarrow> map_of (aliases p) k))))"
  using assms
  by (simp add: inherit_parent_cmd_def Let_def map_of_dict_update)

text \<open>Witness for C7: the child overrides \<open>debug\<close>, inherits \<open>force\<close> and the aliases.\<close>

theorem inherit_parent_cmd_maps_witness:
  "flags parent_cmd \<noteq> [] \<and> flags child_cmd \<noteq> [] \<and>
   map_of (flags (inherit_parent_cmd child_cmd (Some parent_cmd))) ''debug'' =
     Some ([(''Cmd.verbose'', VBool False)], ''own'') \<and>
   map_of (flags (inherit_parent_cmd child_cmd (Some parent_cmd))) ''force'' =
     Some ([(''Cmd.force'', VBool True)], ''inherited'') \<and>
   aliases parent_cmd \<noteq> [] \<and> aliases child_cmd = [] \<and>
   aliases (inherit_parent_cmd child_cmd (Some parent_cmd)) = aliases parent_cmd"
proof -
  have d1: "distinct (map fst (flags child_cmd))" by (simp add: child_cmd_def)
  have d2: "distinct (map fst (aliases child_cmd))" by (simp add: child_cmd_def)
  have p: "flags parent_cmd \<noteq> []" "aliases parent_cmd \<noteq> []" by (simp_all add: parent_cmd_def)
  have c: "flags child_cmd \<noteq> []" "aliases child_cmd = []" by (simp_all add: child_cmd_def)
  from inherit_parent_cmd_maps[OF d1 d2, of parent_cmd] p c
  have f: "\<forall>k. map_of (flags (inherit_parent_cmd child_cmd (Some parent_cmd))) k =
             (case map_of (flags child_cmd) k of Some v \<Rightarrow> Some v | None \<Rightarrow> map_of (flags parent_cmd) k)"
    and a: "aliases (inherit_parent_cmd child_cmd (Some parent_cmd)) = aliases parent_cmd"
    by blast+
  have "map_of (flags (inherit_parent_cmd child_cmd (Some parent_cmd))) ''debug'' =
     Some ([(''Cmd.verbose'', VBool False)], ''own'')"
    unfolding f[rule_format] by (simp add: child_cmd_def)
  moreover have "map_of (flags (inherit_parent_cmd child_cmd (Some parent_cmd))) ''force'' =
     Some ([(''Cmd.force'', VBool True)], ''inherited'')"
    unfolding f[rule_format] by (simp add: child_cmd_def parent_cmd_def)
  ultimately show ?thesis using p c a by simp
qed

section \<open>Loading one file\<close>

text \<open>
  C9.  For a file whose extension selects a loader: if the file has vanished, the result
  is no configuration, nothing is raised and nothing is logged; if loading fails, the
  failure is raised exactly in strict mode (\<open>raise_config_file_errors\<close>), and otherwise
  an error is logged and the result is no configuration; on success the result is the
  configuration the loader parsed.
\<close>

theorem read_config_outcomes:
  assumes "map_of [(''.py'', load_py env), (''.json'', load_json env)]
             (lower (snd (splitext cfpath))) = Some loader"
  shows "(loader cfpath = FileNotFound \<longrightarrow>
            read_config_from_json_or_py env self cfpath = Inr (None, [])) \<and>
         (\<forall>ex. loader cfpath = LoadFailure ex \<longrightarrow>
            read_config_from_json_or_py env self cfpath =
              (if raise_config_file_errors self then Inl (ConfigLoadError ex)
               else Inr (None,
                      [LogError (''Failed loading config-file '' @ quoted cfpath @ '' due to: '' @ ex)]))) \<and>
         (\<forall>cfg. loader cfpath = Loaded cfg \<longrightarrow>
            read_config_from_json_or_py env self cfpath =
              Inr (Some cfg, [LogDebug (''Loaded config-file: '' @ cfpath)]))"
  using assms
  by (simp add: read_config_from_json_or_py_def Let_def)

text \<open>Witness for C9: a vanished file, a file that fails in both modes, a file that loads.\<close>

theorem read_config_outcomes_witness:
  "read_config_from_json_or_py loading_env parent_cmd ''/gone.json'' = Inr (None, []) \<and>
   read_config_from_json_or_py loading_env parent_cmd ''/bad.json'' =
     Inr (None, [LogError (''Failed loading config-file '' @ quoted ''/bad.json'' @ '' due to: '' @
                             ''Expecting value'')]) \<and>
   read_config_from_json_or_py loading_env (parent_cmd\<lparr>raise_config_file_errors := True\<rparr>)
       ''/bad.json'' = Inl (ConfigLoadError ''Expecting value'') \<and>
   read_config_from_json_or_py loading_env parent_cmd ''/ok.py'' =
     Inr (Some [(''Cmd.verbose'', VBool True)], [LogDebug (''Loaded config-file: '' @ ''/ok.py'')])"
proof -
  have j: "\<And>p. p = ''/gone.json'' \<or> p = ''/bad.json'' \<Longrightarrow>
     map_of [(''.py'', load_py loading_env), (''.json'', load_json loading_env)]
        (lower (snd (splitext p))) = Some (load_json loading_env)"
    by (auto simp: splitext_def lower_def lower_char_def)
  have y: "map_of [(''.py'', load_py loading_env), (''.json'', load_json loading_env)]
        (lower (snd (splitext ''/ok.py''))) = Some (load_py loading_env)"
    by (simp add: splitext_def lower_def lower_char_def)
  have s: "\<not> raise_config_file_errors parent_cmd"
    by (simp add: parent_cmd_def new_cmd_def)
  have 1: "load_json loading_env ''/gone.json'' = FileNotFound"
    and 2: "load_json loading_env ''/bad.json'' = LoadFailure ''Expecting value''"
    and 3: "load_py loading_env ''/ok.py'' = Loaded [(''Cmd.verbose'', VBool True)]"
    by (simp_all add: loading_env_def)
  show ?thesis
    using read_config_outcomes[OF j, of "''/gone.json''" parent_cmd]
      read_config_outcomes[OF j, of "''/bad.json''" parent_cmd]
      read_config_outcomes[OF j, of "''/bad.json''" "parent_cmd\<lparr>raise_config_file_errors := True\<rparr>"]
      read_config_outcomes[OF y, of parent_cmd]
      1 2 3 s
    by simp
qed



section \<open>Merging files and command line\<close>







lemma load_config_traits_fields:
  assumes "load_config_traits s c = Inr s'"
  shows "subapp s' = subapp s \<and> cli_config s' = cli_config s \<and> config s' = config s \<and>
         raise_config_file_errors s' = raise_config_file_errors s \<and>
         cfgfiles_registry s' = cfgfiles_registry s \<and> cmd_cls s' = cmd_cls s"
  using assms
  by (auto simp: load_config_traits_def split: option.splits cfg_value.splits)

lemma update_config_fields:
  assumes "update_config s c = Inr s'"
  shows "subapp s' = subapp s \<and> cli_config s' = cli_config s \<and>
         config s' = merge_config (config s) c \<and>
         raise_config_file_errors s' = raise_config_file_errors s \<and>
         cfgfiles_registry s' = cfgfiles_registry s \<and> cmd_cls s' = cmd_cls s"
proof -
  from assms obtain s1 where l: "load_config_traits s c = Inr s1"
    and s': "s' = s1\<lparr>config := merge_config (config s1) c\<rparr>"
    by (auto simp: update_config_def split: sum.splits)
  from load_config_traits_fields[OF l] s' show ?thesis by simp
qed


lemma load_cli_config_node:
  assumes "load_cli_config env w i argv = Inr w1"
  shows "update_config ((store w i)\<lparr>cli_config := parse_options env argv\<rparr>)
           (parse_options env argv) = Inr (store w1 i) \<and>
         next_id w1 = next_id w \<and> (\<forall>a. a \<noteq> i \<longrightarrow> store w1 a = store w a)"
  using assms
  by (auto simp: load_cli_config_def Let_def split: sum.splits)






text \<open>
  Witness for C3: three files setting \<open>X.value\<close> to 3, 2 and 1, named in descending
  priority by the \<open>config_paths\<close> of the class.  Without an override the result is 3;
  with the override 9 of the command line it is 9; and when the command line sets
  \<open>Cmd.config_paths\<close> to \<open>/a\<close>, only \<open>/a.json\<close> is read and the result is 1.
\<close>

lemmas cmd_eval = chain_cmds_def instantiate_def set_subapp_def load_cli_config_def
  update_config_def load_config_traits_def pathlist_validate_def merge_config_def
  dict_update_def is_dispatching_def read_config_files_def
  collect_static_fpaths_def collect_fpaths_def new_cmd_def inherit_parent_cmd_def
  default_registry_def new_registry_def Let_def










section \<open>Writing over an existing configuration file\<close>

lemma splitext_parts:
  assumes "splitext p = (a, b)"
  shows "p = a @ b \<and> (b = [] \<or> hd b = CHR ''.'')"
proof -
  define fname where "fname = rev (takeWhile (\<lambda>c. c \<noteq> CHR ''/'') (rev p))"
  define ext_tail where "ext_tail = rev (takeWhile (\<lambda>c. c \<noteq> CHR ''.'') (rev fname))"
  define n where "n = length p - (length ext_tail + 1)"
  define stem where "stem = take (length fname - (length ext_tail + 1)) fname"
  have sx: "splitext p =
      (if CHR ''.'' \<in> set fname
       then (if (\<exists>c\<in>set stem. c \<noteq> CHR ''.'') then (take n p, drop n p) else (p, []))
       else (p, []))"
    unfolding splitext_def Let_def fname_def ext_tail_def n_def stem_def by (rule refl)
  show ?thesis
  proof (cases "CHR ''.'' \<in> set fname \<and> (\<exists>c\<in>set stem. c \<noteq> CHR ''.'')")
    case False
    then have "splitext p = (p, [])" unfolding sx by (simp split: if_splits)
    with assms show ?thesis by simp
  next
    case True
    then have "splitext p = (take n p, drop n p)" unfolding sx by simp
    with assms have a: "a = take n p" and b: "b = drop n p" by simp_all
    let ?T = "takeWhile (\<lambda>c. c \<noteq> CHR ''/'') (rev p)"
    let ?E = "takeWhile (\<lambda>c. c \<noteq> CHR ''.'') ?T"
    from True have dot: "CHR ''.'' \<in> set ?T" by (simp add: fname_def)
    have lE: "length ext_tail = length ?E" by (simp add: ext_tail_def fname_def)
    from dot have dne: "dropWhile (\<lambda>c. c \<noteq> CHR ''.'') ?T \<noteq> []" by auto
    then obtain x rest where xr: "dropWhile (\<lambda>c. c \<noteq> CHR ''.'') ?T = x # rest"
      by (cases "dropWhile (\<lambda>c. c \<noteq> CHR ''.'') ?T") simp_all
    from hd_dropWhile[OF dne] have "x = CHR ''.''" by (simp add: xr)
    with xr have dw: "dropWhile (\<lambda>c. c \<noteq> CHR ''.'') ?T = CHR ''.'' # rest" by simp
    have T: "?T = ?E @ CHR ''.'' # rest"
      using takeWhile_dropWhile_id[of "\<lambda>c. c \<noteq> CHR ''.''" ?T] dw by simp
    define R where "R = dropWhile (\<lambda>c. c \<noteq> CHR ''/'') (rev p)"
    have "rev p = ?T @ R" by (simp add: R_def)
    then have "rev p = ?E @ CHR ''.'' # (rest @ R)"
      using T by (metis append.assoc append_Cons)
    then have "rev (rev p) = rev (?E @ CHR ''.'' # (rest @ R))"
      by (rule arg_cong)
    then have p: "p = rev (rest @ R) @ CHR ''.'' # rev ?E"
      by (simp only: rev_rev_ident rev_append rev.simps append.assoc append_Cons append_Nil)
    define front where "front = rev (rest @ R)"
    define E' where "E' = rev ?E"
    have p': "p = front @ CHR ''.'' # E'" using p by (simp only: front_def E'_def)
    have lE': "length ext_tail = length E'" by (simp add: lE E'_def)
    have len: "n = length front"
      unfolding n_def lE' by (subst p') simp
    have dr: "drop n p = CHR ''.'' # E'"
      unfolding len by (subst p') simp
    have ab: "p = a @ b" unfolding a b by simp
    have "hd b = CHR ''.''" unfolding b dr by simp
    with ab show ?thesis by simp
  qed
qed

lemma backup_name_differs: "backup_name wr cf \<noteq> cf"
proof
  assume eq: "backup_name wr cf = cf"
  obtain a b where s: "splitext cf = (a, b)" by (cases "splitext cf")
  from splitext_parts[OF s] have cf: "cf = a @ b" and b: "b = [] \<or> hd b = CHR ''.''" by simp_all
  from eq have "a @ ''-'' @ w_now wr @ ''.py'' = cf"
    by (simp add: backup_name_def s)
  then have "a @ ''-'' @ w_now wr @ ''.py'' = a @ b"
    by (simp only: cf[symmetric])
  then have "b = ''-'' @ w_now wr @ ''.py''" by simp
  with b show False by simp
qed

text \<open>
  Where the target has a folder part that is a directory (and the backup name names no
  directory), writing over an existing file does what is asked: without \<open>force\<close> the
  call raises the already-exists \<open>CmdException\<close> and leaves the file system as it
  was; with \<open>force\<close> it ends without an exception, the old text is found under the
  backup name, which carries the time stamp, the generated text is found under the
  original path, and no other path has changed.
\<close>

lemma write_default_config_in_folder:
  assumes t: "target_config_file wr d self config_file = Inr cf"
    and ex: "d cf = Some (File old)"
  shows "write_default_config wr d self config_file False =
           (Some (CmdException (already_exists_msg cf)), d, []) \<and>
         (fst (osp_split cf) \<noteq> [] \<and> d (fst (osp_split cf)) = Some Dir \<and>
          d (backup_name wr cf) \<noteq> Some Dir \<longrightarrow>
            (\<exists>d' logs.
               write_default_config wr d self config_file True = (None, d', logs) \<and>
               d' (backup_name wr cf) = Some (File old) \<and>
               d' cf = Some (File (w_config_text wr)) \<and>
               (\<forall>p. p \<noteq> cf \<and> p \<noteq> backup_name wr cf \<longrightarrow> d' p = d p)))"
proof -
  have isf: "disk_isfile d cf" by (simp add: disk_isfile_def ex)
  have 1: "write_default_config wr d self config_file False =
           (Some (CmdException (already_exists_msg cf)), d, [])"
    by (simp add: write_default_config_def t isf)
  have 2: "\<exists>d' logs.
               write_default_config wr d self config_file True = (None, d', logs) \<and>
               d' (backup_name wr cf) = Some (File old) \<and>
               d' cf = Some (File (w_config_text wr)) \<and>
               (\<forall>p. p \<noteq> cf \<and> p \<noteq> backup_name wr cf \<longrightarrow> d' p = d p)"
    if nonempty: "fst (osp_split cf) \<noteq> []"
      and dir: "d (fst (osp_split cf)) = Some Dir" and nb: "d (backup_name wr cf) \<noteq> Some Dir"
  proof -
    let ?b = "backup_name wr cf"
    let ?d1 = "d(cf := None, ?b := d cf)"
    have ne: "?b \<noteq> cf" by (rule backup_name_differs)
    have mv: "shutil_move d cf ?b = Inr ?d1"
      using nb by (simp add: shutil_move_def disk_isdir_def)
    have dn1: "fst (osp_split cf) \<noteq> cf" using dir ex by auto
    have dn2: "fst (osp_split cf) \<noteq> ?b" using dir nb by auto
    have ed: "ensure_dir_exists ?d1 (fst (osp_split cf)) = Inr ?d1"
      using dir dn1 dn2 nonempty by (simp add: ensure_dir_exists_def)
    have wt: "write_text ?d1 cf (w_config_text wr) = Inr (?d1(cf \<mapsto> File (w_config_text wr)))"
      using ne by (simp add: write_text_def disk_isdir_def)
    have "write_default_config wr d self config_file True =
            (None, ?d1(cf \<mapsto> File (w_config_text wr)),
             [LogInfo (''Writting config-file '' @ quoted cf @
                 ('', old file renamed --> '' @ quoted ?b) @ ''...'')])"
      by (simp add: write_default_config_def t isf mv ed wt Let_def)
    moreover have "(?d1(cf \<mapsto> File (w_config_text wr))) ?b = Some (File old)"
      using ne ex by simp
    moreover have "(?d1(cf \<mapsto> File (w_config_text wr))) cf = Some (File (w_config_text wr))"
      by simp
    moreover have "\<forall>p. p \<noteq> cf \<and> p \<noteq> ?b \<longrightarrow> (?d1(cf \<mapsto> File (w_config_text wr))) p = d p"
      by simp
    ultimately show ?thesis by blast
  qed
  from 1 2 show ?thesis by blast
qed

lemma write_default_config_in_folder_example:
  "write_default_config conf_writing conf_disk parent_cmd (Some ''/w/conf'') False =
     (Some (CmdException (already_exists_msg ''/w/conf.py'')), conf_disk, []) \<and>
   (\<exists>d' logs.
      write_default_config conf_writing conf_disk parent_cmd (Some ''/w/conf'') True = (None, d', logs) \<and>
      d' ''/w/conf-20180502-103000.py'' = Some (File ''c.Cmd.verbose = True'') \<and>
      d' ''/w/conf.py'' = Some (File ''# Configuration''))"
proof -
  have t: "target_config_file conf_writing conf_disk parent_cmd (Some ''/w/conf'') = Inr ''/w/conf.py''"
    by (simp add: target_config_file_def truthy_name_def conf_writing_def conf_disk_def
          disk_isdir_def ensure_file_ext_def endswith_def)
  have ex: "conf_disk ''/w/conf.py'' = Some (File ''c.Cmd.verbose = True'')"
    by (simp add: conf_disk_def)
  have b: "backup_name conf_writing ''/w/conf.py'' = ''/w/conf-20180502-103000.py''"
    by (simp add: backup_name_def splitext_def conf_writing_def)
  have dn: "fst (osp_split ''/w/conf.py'') = ''/w''"
    by (simp add: osp_split_def rstrip_def)
  have dir: "conf_disk (fst (osp_split ''/w/conf.py'')) = Some Dir"
    by (simp add: dn conf_disk_def)
  have nb: "conf_disk (backup_name conf_writing ''/w/conf.py'') \<noteq> Some Dir"
    by (simp add: b conf_disk_def)
  have ct: "w_config_text conf_writing = ''# Configuration''"
    by (simp add: conf_writing_def)
  from write_default_config_in_folder[OF t ex] dir nb dn
  show ?thesis unfolding b ct by auto
qed

text \<open>
  C8 fails with \<open>force\<close> for a target without folder part.  The target taken from
  \<open>config_paths\<close> is not made absolute: for \<open>config_paths = ['conf']\<close> beside an
  existing \<open>conf.py\<close>, the old file is renamed aside first, then
  \<open>ensure_dir_exists\<close> is called with the empty folder name and fails, and nothing is
  written: the call ends with that error, \<open>conf.py\<close> is gone and only the backup
  holds the old text.
\<close>

theorem write_default_config_bare_name:
  "(case write_default_config conf_writing bare_disk (parent_cmd\<lparr>config_paths := [''conf'']\<rparr>)
           None True of
      (e, d, logs) \<Rightarrow> (e, d ''conf.py'', d ''conf-20180502-103000.py'')) =
   (Some (OSError []), None, Some (File ''c.Cmd.verbose = True''))"
  by (simp add: write_default_config_def target_config_file_def truthy_name_def
        ensure_file_ext_def endswith_def disk_isfile_def disk_isdir_def shutil_move_def
        backup_name_def splitext_def ensure_dir_exists_def osp_split_def rstrip_def
        conf_writing_def bare_disk_def Let_def)


section \<open>Who reads the configuration files\<close>

text \<open>
  With dispatch by the command line, \<open>initialize\<close> on a node that ends with a
  sub-command attached has not touched the node's registry of configuration files.
\<close>

lemma read_config_files_registry:
  "read_config_files env self = Inr (self1, static, logs) \<Longrightarrow> subapp self1 = subapp self"
  by (auto simp: read_config_files_def collect_static_fpaths_def split: sum.splits prod.splits)

lemma initialize_frame:
  "(\<forall>w'. initialize env w i argv = Inr w' \<longrightarrow>
      frame w w' i \<and>
      (i < next_id w \<longrightarrow> is_dispatching (store w' i) \<longrightarrow>
         cfgfiles_registry (store w' i) = cfgfiles_registry (store w i)))" (is "?P env w i argv")
  and
  "(\<forall>w'. parse_command_line env w i argv = Inr w' \<longrightarrow>
      frame w w' i \<and>
      (i < next_id w \<longrightarrow> cfgfiles_registry (store w' i) = cfgfiles_registry (store w i)))"
    (is "?Q env w i argv")
proof (induction env w i argv rule: initialize_parse_command_line.induct)
  case (1 env w i argv)
  show ?case
  proof (intro allI impI)
    fix w'
    assume init: "initialize env w i argv = Inr w'"
    then obtain w1 where p: "parse_command_line env w i argv = Inr w1"
      by (auto split: sum.splits simp del: parse_command_line.simps)
    from 1 p have f1: "frame w w1 i"
      and r1: "i < next_id w \<longrightarrow> cfgfiles_registry (store w1 i) = cfgfiles_registry (store w i)"
      by blast+
    show "frame w w' i \<and>
      (i < next_id w \<longrightarrow> is_dispatching (store w' i) \<longrightarrow>
         cfgfiles_registry (store w' i) = cfgfiles_registry (store w i))"
    proof (cases "is_dispatching (store w1 i)")
      case True
      with init p have "w' = w1" by (simp del: parse_command_line.simps)
      with f1 r1 show ?thesis by simp
    next
      case False
      with init p obtain self1 static logs self2 where
        rf: "read_config_files env (store w1 i) = Inr (self1, static, logs)"
        and u2: "update_config self1 (merge_config static (cli_config self1)) = Inr self2"
        and w': "w' = w1\<lparr>store := (store w1)(i := self2), wlog := wlog w1 @ logs\<rparr>"
        by (auto split: sum.splits prod.splits simp del: parse_command_line.simps)
      have "\<not> is_dispatching (store w' i)"
        using False read_config_files_registry[OF rf] update_config_fields[OF u2]
        by (simp add: w' is_dispatching_def)
      moreover have "frame w w' i"
        using f1 by (simp add: frame_def w')
      ultimately show ?thesis by simp
    qed
  qed
next
  case (2 env w i)
  show ?case
  proof (intro allI impI)
    fix w'
    assume "parse_command_line env w i [] = Inr w'"
    then have l: "load_cli_config env w i [] = Inr w'" by simp
    from load_cli_config_node[OF l]
    have u: "update_config ((store w i)\<lparr>cli_config := parse_options env []\<rparr>)
               (parse_options env []) = Inr (store w' i)"
      and n: "next_id w' = next_id w" and o: "\<forall>a. a \<noteq> i \<longrightarrow> store w' a = store w a"
      by simp_all
    from update_config_fields[OF u]
    have "cfgfiles_registry (store w' i) = cfgfiles_registry (store w i)" by simp
    with n o show "frame w w' i \<and>
      (i < next_id w \<longrightarrow> cfgfiles_registry (store w' i) = cfgfiles_registry (store w i))"
      by (simp add: frame_def)
  qed
next
  case (3 env w i subc subargv)
  show ?case
  proof (cases "map_of (cls_subcommands (cmd_cls (store w i))) subc")
    case None
    show ?thesis
    proof (intro allI impI)
      fix w'
      assume "parse_command_line env w i (subc # subargv) = Inr w'"
      then have l: "load_cli_config env w i (subc # subargv) = Inr w'" by (simp add: None)
      from load_cli_config_node[OF l]
      have u: "update_config ((store w i)\<lparr>cli_config := parse_options env (subc # subargv)\<rparr>)
                 (parse_options env (subc # subargv)) = Inr (store w' i)"
        and n: "next_id w' = next_id w" and o: "\<forall>a. a \<noteq> i \<longrightarrow> store w' a = store w a"
        by simp_all
      from update_config_fields[OF u]
      have "cfgfiles_registry (store w' i) = cfgfiles_registry (store w i)" by simp
      with n o show "frame w w' i \<and>
        (i < next_id w \<longrightarrow> cfgfiles_registry (store w' i) = cfgfiles_registry (store w i))"
        by (simp add: frame_def)
    qed
  next
    case (Some sub_cl)
    obtain w1 j where inst: "instantiate w sub_cl (Some i) = (w1, j)"
      by (cases "instantiate w sub_cl (Some i)")
    then have j: "j = next_id w"
      and n1: "next_id w1 = Suc (next_id w)"
      and s1: "\<And>a. a \<noteq> next_id w \<Longrightarrow> store w1 a = store w a"
      by (auto simp: instantiate_def Let_def)
    let ?w2 = "set_subapp w1 i j"
    have n2: "next_id ?w2 = Suc (next_id w)" by (simp add: set_subapp_def n1)
    have st2: "\<And>a. a < next_id w \<Longrightarrow> a \<noteq> i \<Longrightarrow> store ?w2 a = store w a"
      by (simp add: set_subapp_def s1)
    have reg2: "i < next_id w \<Longrightarrow> cfgfiles_registry (store ?w2 i) = cfgfiles_registry (store w i)"
      by (simp add: set_subapp_def s1)
    show ?thesis
    proof (intro allI impI)
      fix w'
      assume "parse_command_line env w i (subc # subargv) = Inr w'"
      then have init: "initialize env ?w2 j subargv = Inr w'"
        by (simp add: Some inst)
      from "3.IH"[OF Some inst[symmetric]] init
      have f: "frame ?w2 w' j" by blast
      have "frame w w' i"
        unfolding frame_def
      proof (intro conjI allI impI)
        show "next_id w \<le> next_id w'" using f n2 by (simp add: frame_def)
      next
        fix a assume a: "a < next_id w \<and> a \<noteq> i"
        then have "a < next_id ?w2" "a \<noteq> j" using n2 j by simp_all
        with f have "store w' a = store ?w2 a" by (simp add: frame_def)
        with a st2 show "store w' a = store w a" by simp
      qed
      moreover have "i < next_id w \<longrightarrow> cfgfiles_registry (store w' i) = cfgfiles_registry (store w i)"
      proof
        assume i: "i < next_id w"
        then have "i < next_id ?w2" "i \<noteq> j" using n2 j by simp_all
        with f have "store w' i = store ?w2 i" by (simp add: frame_def)
        with reg2[OF i] show "cfgfiles_registry (store w' i) = cfgfiles_registry (store w i)" by simp
      qed
      ultimately show "frame w w' i \<and>
        (i < next_id w \<longrightarrow> cfgfiles_registry (store w' i) = cfgfiles_registry (store w i))"
        by simp
    qed
  qed
qed

lemma initialize_dispatching_reads_nothing:
  assumes "initialize env w i argv = Inr w'" and "i < next_id w"
    and "is_dispatching (store w' i)"
  shows "cfgfiles_registry (store w' i) = cfgfiles_registry (store w i)"
  using initialize_frame(1)[of env w i argv] assms by blast

lemma initialize_dispatching_root:
  "map_sum id (\<lambda>w. (subapp (store w 0), cfgfiles_registry (store w 0), cfgfiles_registry (store w 1)))
        (initialize bare_env (fst (instantiate empty_world root_class None)) 0 [''sub'']) =
   Inr (Some 1, None, Some (default_registry\<lparr>collected_paths := Some []\<rparr>))"
  by (simp add: cmd_eval bare_env_def empty_world_def root_class_def sub_class_def no_files_def)

text \<open>
  C2 fails for chains built by \<open>chain_cmds\<close>: every command of the list is
  initialized before the next one is attached to it.  For the chain of a root command
  and its sub-command, with an empty command line, the root ends with the sub-command
  attached (\<open>subapp\<close> is the instance 1) and has collected configuration files (its
  registry exists), although it is not the terminal node.
\<close>

theorem chain_cmds_root_reads_config:
  "map_sum id (\<lambda>(w, root). (root, subapp (store w root), cfgfiles_registry (store w root)))
        (chain_cmds bare_env empty_world [root_class, sub_class] []) =
   Inr (0, Some 1, Some (default_registry\<lparr>collected_paths := Some []\<rparr>))"
  by (simp add: cmd_eval bare_env_def empty_world_def root_class_def sub_class_def no_files_def)


end
